theory Spec2Isabelle
  imports Main
begin

section \<open>Transport: buffered reads from a connection (conn/socket.c)\<close>

text \<open>
  The raw socket below a connection is represented by the results its successive
  \<open>conn_read\<close> calls will deliver: a chunk of bytes, an orderly close (0) or a
  failure (a negative count). When the list is used up the peer has closed.
\<close>

datatype read_result = Bytes "char list" | Closed | Failed

text \<open>
  \<open>struct Connection\<close>, restricted to the fields the read path touches. The field
  \<open>consumed\<close> counts the bytes handed out by \<open>mutt_socket_readchar\<close>; \<open>wire\<close> is
  the raw socket; \<open>shown\<close> collects the texts passed to \<open>mutt_error\<close>.
\<close>

record Connection =
  fd :: int
  ssf :: int
  inbuf :: "char list"
  bufpos :: int
  available :: int
  wire :: "read_result list"
  consumed :: nat
  shown :: "string list"

text \<open>
  \<open>conn->conn_read(conn, conn->inbuf, sizeof(conn->inbuf))\<close>: the bytes received
  become the front of \<open>inbuf\<close>; only the first \<open>available\<close> cells are ever read.
\<close>

definition conn_read :: "Connection \<Rightarrow> int \<times> Connection" where
  "conn_read conn =
     (case wire conn of
        [] \<Rightarrow> (0, conn)
      | Bytes bs # rest \<Rightarrow> (int (length bs), conn\<lparr>inbuf := bs, wire := rest\<rparr>)
      | Closed # rest \<Rightarrow> (0, conn\<lparr>wire := rest\<rparr>)
      | Failed # rest \<Rightarrow> (- 1, conn\<lparr>wire := rest\<rparr>))"

definition mutt_socket_close :: "Connection \<Rightarrow> Connection" where
  "mutt_socket_close conn = conn\<lparr>fd := - 1, ssf := 0\<rparr>"

text \<open>
  \<open>mutt_socket_readchar\<close>: \<open>None\<close> is the return value -1, \<open>Some c\<close> is the
  return value 1 with \<open>*c\<close> stored.
\<close>

definition take_char :: "Connection \<Rightarrow> char option \<times> Connection" where
  "take_char conn =
     (Some (inbuf conn ! nat (bufpos conn)),
      conn\<lparr>bufpos := bufpos conn + 1, consumed := Suc (consumed conn)\<rparr>)"

definition mutt_socket_readchar :: "Connection \<Rightarrow> char option \<times> Connection" where
  "mutt_socket_readchar conn =
     (if bufpos conn \<ge> available conn then
        (if fd conn \<ge> 0 then
           (let (n, c1) = conn_read conn;
                c2 = c1\<lparr>available := n, bufpos := 0\<rparr>;
                c3 = (if n = 0 then c2\<lparr>shown := shown c2 @ [''Connection closed'']\<rparr> else c2)
            in if n \<le> 0 then (None, mutt_socket_close c3) else take_char c3)
         else (None, conn))
      else take_char conn)"

text \<open>
  A store into the caller's buffer. The buffer is a list of \<open>buflen\<close> cells; a store
  outside it is \<open>None\<close>, so that a result \<open>Some\<close> means every store was in range.
\<close>

definition poke :: "char list \<Rightarrow> nat \<Rightarrow> char \<Rightarrow> char list option" where
  "poke buf i c = (if i < length buf then Some (buf[i := c]) else None)"

text \<open>
  The loop bound \<open>buflen - 1\<close> is computed in \<open>size_t\<close> (64 bits), so it wraps at
  \<open>buflen = 0\<close>.
\<close>

definition size_pred :: "nat \<Rightarrow> nat" where
  "size_pred buflen = (if buflen = 0 then 2 ^ 64 - 1 else buflen - 1)"

text \<open>
  The \<open>for\<close> loop of \<open>mutt_socket_readln_d\<close>. The result is the flag "no read
  error", the final \<open>i\<close>, the buffer and the connection.
\<close>

function readln_loop ::
  "nat \<Rightarrow> nat \<Rightarrow> char list \<Rightarrow> Connection \<Rightarrow> (bool \<times> nat \<times> char list \<times> Connection) option"
where
  "readln_loop bound i buf conn =
     (if i < bound then
        (case mutt_socket_readchar conn of
           (None, conn') \<Rightarrow>
             (case poke buf i (CHR 0x00) of
                None \<Rightarrow> None
              | Some buf' \<Rightarrow> Some (False, i, buf', conn'))
         | (Some ch, conn') \<Rightarrow>
             if ch = CHR 0x0A then Some (True, i, buf, conn')
             else (case poke buf i ch of
                     None \<Rightarrow> None
                   | Some buf' \<Rightarrow> readln_loop bound (Suc i) buf' conn'))
      else Some (True, i, buf, conn))"
  by pat_completeness auto
termination
  by (relation "measure (\<lambda>(bound, i, buf, conn). bound - i)") auto

declare readln_loop.simps [simp del]

text \<open>
  \<open>mutt_socket_readln_d(buf, buflen, conn, dbg)\<close>: the result is the return value,
  the buffer and the connection; \<open>None\<close> is a store outside the buffer.
\<close>

definition mutt_socket_readln_d ::
  "char list \<Rightarrow> nat \<Rightarrow> Connection \<Rightarrow> (int \<times> char list \<times> Connection) option"
where
  "mutt_socket_readln_d buf buflen conn =
     (case readln_loop (size_pred buflen) 0 buf conn of
        None \<Rightarrow> None
      | Some (False, i, b, c) \<Rightarrow> Some (- 1, b, c)
      | Some (True, i, b, c) \<Rightarrow>
          (let j = (if i \<noteq> 0 \<and> b ! (i - 1) = CHR 0x0D then i - 1 else i)
           in case poke b j (CHR 0x00) of
                None \<Rightarrow> None
              | Some b' \<Rightarrow> Some (int j + 1, b', c)))"

text \<open>A connection that is open, with an empty input buffer, in front of a given wire.\<close>

definition fresh_conn :: "read_result list \<Rightarrow> Connection" where
  "fresh_conn w =
     \<lparr>fd = 3, ssf = 0, inbuf = [], bufpos = 0, available = 0, wire = w,
      consumed = 0, shown = []\<rparr>"

text \<open>
  What the loop guarantees when it starts at \<open>i\<close> with a bound inside the buffer:
  it returns, the buffer keeps its size, the final index stays within the bound, a
  failed read leaves a terminator at the final index, and at most \<open>bound - i\<close>
  bytes are taken from the connection.
\<close>

definition loop_ok ::
  "nat \<Rightarrow> nat \<Rightarrow> char list \<Rightarrow> Connection \<Rightarrow>
   (bool \<times> nat \<times> char list \<times> Connection) option \<Rightarrow> bool"
where
  "loop_ok bound i buf conn res =
     (case res of
        None \<Rightarrow> False
      | Some (ok, j, b, c) \<Rightarrow>
          length b = length buf \<and> i \<le> j \<and> j \<le> bound \<and> (\<not> ok \<longrightarrow> b ! j = CHR 0x00)
          \<and> consumed c + i \<le> consumed conn + bound)"

section \<open>Host name matching (hostname_match in the TLS engine)\<close>

text \<open>
  C strings are modelled as lists of the characters before the terminating null.
  The three library functions that \<open>hostname_match\<close> calls follow their C
  descriptions: \<open>tolower\<close> in the C locale, \<open>strcasecmp\<close> (zero exactly when the
  strings agree up to case, otherwise the sign of the first difference) and
  \<open>strchr\<close> (the suffix that starts at the first occurrence, \<open>None\<close> for NULL).
\<close>

definition ascii_lower :: "char \<Rightarrow> char" where
  "ascii_lower c =
     (let n = (of_char c :: nat) in if 65 \<le> n \<and> n \<le> 90 then char_of (n + 32) else c)"

fun strcasecmp :: "string \<Rightarrow> string \<Rightarrow> int" where
  "strcasecmp [] [] = 0"
| "strcasecmp [] (y # ys) = - 1"
| "strcasecmp (x # xs) [] = 1"
| "strcasecmp (x # xs) (y # ys) =
     (if ascii_lower x = ascii_lower y then strcasecmp xs ys
      else int (of_char (ascii_lower x)) - int (of_char (ascii_lower y)))"

definition strchr :: "string \<Rightarrow> char \<Rightarrow> string option" where
  "strchr s c = (case dropWhile (\<lambda>x. x \<noteq> c) s of [] \<Rightarrow> None | r \<Rightarrow> Some r)"

text \<open>
  \<open>hostname_match(hostname, certname)\<close>. The first step chooses the two strings to
  compare (\<open>cmp1\<close>, \<open>cmp2\<close>) or returns false when the certificate name is a
  wildcard and the host name has no dot.
\<close>

definition hostname_match :: "string \<Rightarrow> string \<Rightarrow> bool" where
  "hostname_match hostname certname =
     (case (if take 2 certname = ''*.''
            then (case strchr hostname (CHR ''.'') of
                    None \<Rightarrow> None
                  | Some cmp2 \<Rightarrow> Some (drop 2 certname, tl cmp2))
            else Some (certname, hostname)) of
        None \<Rightarrow> False
      | Some (cmp1, cmp2) \<Rightarrow>
          if cmp1 = [] \<or> cmp2 = [] then False
          else if strcasecmp cmp1 cmp2 \<noteq> 0 then False
          else True)"

section \<open>TLS engine: the trust decision (ssl_verify_callback and its helpers)\<close>

text \<open>
  What the code reads from an X.509 certificate through the TLS library: the two
  names, the SHA-256 digest (\<open>None\<close> when \<open>X509_digest\<close> fails), the two validity
  times (\<open>None\<close> when the time cannot be read) and the subjectAltName extension.
  A name is a list of parts; the text of a part and a dNSName are raw bytes, which may
  contain a null byte.
\<close>

datatype nid =
  NID_commonName | NID_pkcs9_emailAddress | NID_organizationName
  | NID_organizationalUnitName | NID_localityName | NID_stateOrProvinceName
  | NID_countryName

type_synonym x509_name = "(nid \<times> string) list"

datatype general_name = GEN_DNS string | GEN_OTHER

record x509 =
  subject_name :: "x509_name option"
  issuer_name :: x509_name
  sha256 :: "string option"
  notBefore :: "int option"
  notAfter :: "int option"
  subject_alt_names :: "general_name list option"

text \<open>
  The configuration: the build options \<open>HAVE_SSL_PARTIAL_CHAIN\<close> and
  \<open>HAVE_LIBIDN\<close> (the conversion \<open>mutt_idna_to_ascii_lz\<close>, which is
  \<open>\<lambda>h. None\<close> in a build without it) and the user's settings. The quad options
  \<open>SslVerifyDates\<close> and \<open>SslVerifyHost\<close> are only compared with \<open>MUTT_NO\<close>: the
  field is true when the option is not \<open>MUTT_NO\<close>.
\<close>

record tls_config =
  HAVE_SSL_PARTIAL_CHAIN :: bool
  idna_to_ascii :: "string \<Rightarrow> string option"
  SslVerifyDates :: bool
  SslVerifyHost :: bool
  SslVerifyPartialChains :: bool
  CertificateFile :: "string option"

text \<open>The menu shown by the interactive prompt: the two numbers of its title and the prompt line.\<close>

record cert_menu =
  title_pos :: int
  title_len :: int
  prompt :: string

text \<open>
  The process-wide state of the engine: the two static indexes under which the host
  name and the skip marker are kept in an SSL structure (both -1 when the process
  starts), the session trust sequence, the two static variables of the callback, the
  certificates in the trust file (\<open>None\<close>: the file cannot be opened for reading),
  whether the file can be appended to, and what the user has been shown (messages and
  menus). A session trust sequence that is still NULL is the empty list.
\<close>

record tls_state =
  HostExDataIndex :: int
  SkipModeExDataIndex :: int
  SslSessionCerts :: "x509 list"
  last_pos :: int
  last_cert :: "x509 option"
  trust_file :: "x509 list option"
  trust_file_appendable :: bool
  messages :: "string list"
  menus :: "cert_menu list"

text \<open>
  The application data of an SSL structure, as the TLS library keeps it: a pointer for
  every index, NULL (\<open>None\<close>) where nothing has been stored. The engine stores two
  pointers: a host name, and the address of \<open>SkipModeExDataIndex\<close> as the skip marker.
  \<open>SSL_new\<close> gives a structure with no data. \<open>SSL_get_ex_data\<close> gives NULL for an
  index that is negative or was never stored to; \<open>SSL_set_ex_data\<close> stores nothing
  under a negative index. \<open>SSL_get_ex_new_index\<close> hands out the indexes of the
  process one after the other, or -1 when it fails; its state is the number of indexes
  handed out so far.
\<close>

datatype pointer = Host_name string | Skip_marker

record SSL =
  ex_data :: "int \<Rightarrow> pointer option"

definition SSL_new :: SSL where
  "SSL_new = \<lparr>ex_data = (\<lambda>idx. None)\<rparr>"

definition SSL_get_ex_data :: "SSL \<Rightarrow> int \<Rightarrow> pointer option" where
  "SSL_get_ex_data ssl idx = (if idx < 0 then None else ex_data ssl idx)"

definition SSL_set_ex_data :: "SSL \<Rightarrow> int \<Rightarrow> pointer option \<Rightarrow> SSL" where
  "SSL_set_ex_data ssl idx p = (if idx < 0 then ssl else ssl\<lparr>ex_data := (ex_data ssl)(idx := p)\<rparr>)"

definition SSL_get_ex_new_index :: "bool \<Rightarrow> nat \<Rightarrow> int \<times> nat" where
  "SSL_get_ex_new_index ok n = (if ok then (int n, Suc n) else (- 1, n))"

text \<open>What \<open>mutt_menu_loop\<close> can return, and the surroundings of one call: the clock and the keys the user types.\<close>

datatype menu_op =
  Menu_abort | Op_exit | Op_reject | Op_accept_once | Op_accept_always | Op_skip | Op_other

record call_env =
  clock :: int
  typed :: "menu_op list"

text \<open>
  \<open>X509_cmp_current_time\<close> of the TLS library: -1 when the time is not later than
  the clock, 1 when it is later, 0 on error.
\<close>

definition X509_cmp_current_time :: "int \<Rightarrow> int option \<Rightarrow> int" where
  "X509_cmp_current_time now t =
     (case t of None \<Rightarrow> 0 | Some v \<Rightarrow> if v \<le> now then - 1 else 1)"

text \<open>\<open>check_certificate_expiration\<close>: the result and the messages shown.\<close>

definition check_certificate_expiration ::
  "tls_config \<Rightarrow> int \<Rightarrow> x509 \<Rightarrow> bool \<Rightarrow> bool \<times> string list"
where
  "check_certificate_expiration cfg now peercert silent =
     (if SslVerifyDates cfg then
        (if X509_cmp_current_time now (notBefore peercert) \<ge> 0
         then (False, if silent then [] else [''Server certificate is not yet valid''])
         else if X509_cmp_current_time now (notAfter peercert) \<le> 0
         then (False, if silent then [] else [''Server certificate has expired''])
         else (True, []))
      else (True, []))"

definition compare_certificates :: "x509 \<Rightarrow> x509 \<Rightarrow> string \<Rightarrow> bool" where
  "compare_certificates cert peercert peermd =
     (if subject_name cert \<noteq> subject_name peercert \<or> issuer_name cert \<noteq> issuer_name peercert
      then False
      else case sha256 cert of
             None \<Rightarrow> False
           | Some md \<Rightarrow>
               if length peermd \<noteq> length md then False
               else if peermd \<noteq> md then False
               else True)"

text \<open>\<open>check_certificate_cache\<close> walks the session trust sequence from its last entry.\<close>

definition check_certificate_cache :: "x509 list \<Rightarrow> x509 \<Rightarrow> bool" where
  "check_certificate_cache certs peercert =
     (case sha256 peercert of
        None \<Rightarrow> False
      | Some peermd \<Rightarrow> list_ex (\<lambda>cert. compare_certificates cert peercert peermd) (rev certs))"

definition check_certificate_file :: "tls_config \<Rightarrow> int \<Rightarrow> tls_state \<Rightarrow> x509 \<Rightarrow> bool" where
  "check_certificate_file cfg now st peercert =
     (case CertificateFile cfg of
        None \<Rightarrow> False
      | Some path \<Rightarrow>
          (case trust_file st of
             None \<Rightarrow> False
           | Some certs \<Rightarrow>
               (case sha256 peercert of
                  None \<Rightarrow> False
                | Some peermd \<Rightarrow>
                    list_ex (\<lambda>cert. compare_certificates cert peercert peermd
                                    \<and> fst (check_certificate_expiration cfg now cert True))
                      certs)))"

definition check_certificate_by_digest ::
  "tls_config \<Rightarrow> int \<Rightarrow> tls_state \<Rightarrow> x509 \<Rightarrow> bool \<times> string list"
where
  "check_certificate_by_digest cfg now st peercert =
     (case check_certificate_expiration cfg now peercert False of
        (ok, msgs) \<Rightarrow> (ok \<and> check_certificate_file cfg now st peercert, msgs))"

definition ssl_cache_trusted_cert :: "x509 \<Rightarrow> tls_state \<Rightarrow> tls_state" where
  "ssl_cache_trusted_cert c st = st\<lparr>SslSessionCerts := SslSessionCerts st @ [c]\<rparr>"

text \<open>\<open>mutt_str_strlen\<close> of raw bytes read as a C string.\<close>

definition mutt_str_strlen :: "string \<Rightarrow> nat" where
  "mutt_str_strlen raw = length (takeWhile (\<lambda>c. c \<noteq> CHR 0x00) raw)"

text \<open>The loop of \<open>check_host\<close> over the subjectAltName entries; it stops at the first match.\<close>

fun alt_name_match :: "string \<Rightarrow> general_name list \<Rightarrow> bool" where
  "alt_name_match h [] = False"
| "alt_name_match h (GEN_DNS d # rest) =
     (if mutt_str_strlen d = length d \<and> hostname_match h d then True
      else alt_name_match h rest)"
| "alt_name_match h (GEN_OTHER # rest) = alt_name_match h rest"

text \<open>\<open>check_host\<close>: the result (1 is \<open>True\<close>) and the text left in \<open>err\<close>.\<close>

definition check_host :: "tls_config \<Rightarrow> x509 \<Rightarrow> string \<Rightarrow> bool \<times> string" where
  "check_host cfg x509cert hostname =
     (let hostname_ascii = (case idna_to_ascii cfg hostname of Some a \<Rightarrow> a | None \<Rightarrow> hostname);
          match_found = (case subject_alt_names x509cert of
                           None \<Rightarrow> False
                         | Some names \<Rightarrow> alt_name_match hostname_ascii names)
      in if match_found then (True, [])
         else (case subject_name x509cert of
                 None \<Rightarrow> (False, ''cannot get certificate subject'')
               | Some x509_subject \<Rightarrow>
                   (case map_of x509_subject NID_commonName of
                      None \<Rightarrow> (False, ''cannot get certificate common name'')
                    | Some buf \<Rightarrow>
                        if mutt_str_strlen buf = length buf \<and> hostname_match hostname_ascii buf
                        then (True, [])
                        else (False, ''certificate owner does not match hostname '' @ hostname))))"

text \<open>
  \<open>interactive_check_cert\<close>, first part: which choices the menu offers. The lines of
  the dialog (name parts, validity, fingerprints) do not influence the decision and are
  left out.
\<close>

definition ALLOW_SKIP :: "tls_config \<Rightarrow> int \<Rightarrow> bool" where
  "ALLOW_SKIP cfg idx = (HAVE_SSL_PARTIAL_CHAIN cfg \<and> idx \<noteq> 0 \<and> SslVerifyPartialChains cfg)"

definition allow_always_now :: "tls_config \<Rightarrow> int \<Rightarrow> x509 \<Rightarrow> bool \<Rightarrow> bool" where
  "allow_always_now cfg now cert allow_always =
     (allow_always \<and> CertificateFile cfg \<noteq> None
      \<and> fst (check_certificate_expiration cfg now cert True))"

definition menu_prompt :: "bool \<Rightarrow> bool \<Rightarrow> string" where
  "menu_prompt allow_always allow_skip =
     (if allow_always then
        (if allow_skip then ''(r)eject, accept (o)nce, (a)ccept always, (s)kip''
         else ''(r)eject, accept (o)nce, (a)ccept always'')
      else
        (if allow_skip then ''(r)eject, accept (o)nce, (s)kip''
         else ''(r)eject, accept (o)nce''))"

definition build_menu :: "tls_config \<Rightarrow> int \<Rightarrow> x509 \<Rightarrow> int \<Rightarrow> nat \<Rightarrow> bool \<Rightarrow> cert_menu" where
  "build_menu cfg now cert idx len allow_always =
     \<lparr>title_pos = int len - idx, title_len = int len,
      prompt = menu_prompt (allow_always_now cfg now cert allow_always) (ALLOW_SKIP cfg idx)\<rparr>"

text \<open>
  The \<open>while (!done)\<close> loop around \<open>mutt_menu_loop\<close>. It ends with \<open>done\<close> 1 or 2;
  when the keys run out before a decision the call has not returned (\<open>None\<close>).
\<close>

fun menu_loop ::
  "bool \<Rightarrow> bool \<Rightarrow> x509 \<Rightarrow> menu_op list \<Rightarrow> SSL \<Rightarrow> tls_state \<Rightarrow> (int \<times> SSL \<times> tls_state) option"
where
  "menu_loop allow_always allow_skip cert [] ssl st = None"
| "menu_loop allow_always allow_skip cert (k # ks) ssl st =
     (case k of
        Menu_abort \<Rightarrow> Some (1, ssl, st)
      | Op_reject \<Rightarrow> Some (1, ssl, st)
      | Op_exit \<Rightarrow> Some (1, ssl, st)
      | Op_accept_always \<Rightarrow>
          if \<not> allow_always then menu_loop allow_always allow_skip cert ks ssl st
          else
            (let st1 =
               (if trust_file_appendable st
                then st\<lparr>trust_file :=
                          Some ((case trust_file st of None \<Rightarrow> [] | Some certs \<Rightarrow> certs) @ [cert]),
                        messages := messages st @ [''Certificate saved'']\<rparr>
                else st\<lparr>messages := messages st @ [''Warning: Couldn't save certificate'']\<rparr>)
             in Some (2, SSL_set_ex_data ssl (SkipModeExDataIndex st) None,
                      ssl_cache_trusted_cert cert st1))
      | Op_accept_once \<Rightarrow>
          Some (2, SSL_set_ex_data ssl (SkipModeExDataIndex st) None, ssl_cache_trusted_cert cert st)
      | Op_skip \<Rightarrow>
          if \<not> allow_skip then menu_loop allow_always allow_skip cert ks ssl st
          else Some (2, SSL_set_ex_data ssl (SkipModeExDataIndex st) (Some Skip_marker), st)
      | Op_other \<Rightarrow> menu_loop allow_always allow_skip cert ks ssl st)"

definition interactive_check_cert ::
  "tls_config \<Rightarrow> call_env \<Rightarrow> x509 \<Rightarrow> int \<Rightarrow> nat \<Rightarrow> SSL \<Rightarrow> bool \<Rightarrow> tls_state
   \<Rightarrow> (int \<times> SSL \<times> tls_state) option"
where
  "interactive_check_cert cfg env cert idx len ssl allow_always st =
     (case menu_loop (allow_always_now cfg (clock env) cert allow_always) (ALLOW_SKIP cfg idx)
             cert (typed env) ssl
             (st\<lparr>menus := menus st @ [build_menu cfg (clock env) cert idx len allow_always]\<rparr>) of
        None \<Rightarrow> None
      | Some (done, ssl', st') \<Rightarrow> Some (if done = 2 then 1 else 0, ssl', st'))"

text \<open>
  The local variable \<open>skip_mode\<close> of the callback, and the test that recognises a
  certificate handed to the callback a second time after it was skipped.
\<close>

definition skip_mode :: "SSL \<Rightarrow> tls_state \<Rightarrow> bool" where
  "skip_mode ssl st = (SSL_get_ex_data ssl (SkipModeExDataIndex st) \<noteq> None)"

definition duplicate_skipped :: "tls_config \<Rightarrow> bool \<Rightarrow> SSL \<Rightarrow> x509 \<Rightarrow> int \<Rightarrow> tls_state \<Rightarrow> bool" where
  "duplicate_skipped cfg preverify_ok ssl cert pos st =
     (HAVE_SSL_PARTIAL_CHAIN cfg \<and> SslVerifyPartialChains cfg
      \<and> skip_mode ssl st \<and> preverify_ok \<and> pos = last_pos st
      \<and> (case last_cert st of
            None \<Rightarrow> False
          | Some l \<Rightarrow> (case sha256 l of
                         None \<Rightarrow> False
                       | Some last_cert_md \<Rightarrow> compare_certificates cert l last_cert_md)))"

text \<open>
  \<open>ssl_verify_callback(preverify_ok, ctx)\<close>. The store context gives the SSL structure
  (\<open>None\<close> when it cannot be retrieved), the current certificate, its depth and the
  length of the chain. The host name is what the structure holds under
  \<open>HostExDataIndex\<close>, the index as it is now. The result is the return value, the SSL
  structure and the state; there is no result (\<open>None\<close>) when the prompt has not returned,
  or when the pointer found under \<open>HostExDataIndex\<close> is the skip marker, which is not a
  string. The body is written in three parts: the update of the two static variables,
  the trust decision that follows it (from "check session cache first" to the end), and
  the callback that starts with the data of the SSL structure and the duplicate test.
\<close>

definition remember_last :: "tls_config \<Rightarrow> x509 \<Rightarrow> int \<Rightarrow> tls_state \<Rightarrow> tls_state" where
  "remember_last cfg cert pos st =
     (if HAVE_SSL_PARTIAL_CHAIN cfg \<and> SslVerifyPartialChains cfg
      then st\<lparr>last_pos := pos, last_cert := Some cert\<rparr> else st)"

definition trust_decision ::
  "tls_config \<Rightarrow> call_env \<Rightarrow> bool \<Rightarrow> SSL \<Rightarrow> string \<Rightarrow> x509 \<Rightarrow> int \<Rightarrow> nat \<Rightarrow> tls_state
   \<Rightarrow> (int \<times> SSL \<times> tls_state) option"
where
  "trust_decision cfg env preverify_ok ssl host cert pos len st =
     (if check_certificate_cache (SslSessionCerts st) cert
      then Some (1, SSL_set_ex_data ssl (SkipModeExDataIndex st) None, st)
      else if pos = 0 \<and> SslVerifyHost cfg \<and> \<not> fst (check_host cfg cert host)
      then interactive_check_cert cfg env cert pos len ssl False
             (st\<lparr>messages := messages st @
                [''Certificate host check failed: '' @ snd (check_host cfg cert host)]\<rparr>)
      else if \<not> preverify_ok \<or> skip_mode ssl st
      then
        (if CertificateFile cfg \<noteq> None
         then
           (case check_certificate_by_digest cfg (clock env) st cert of
              (ok, msgs) \<Rightarrow>
                if ok
                then Some (1, SSL_set_ex_data ssl (SkipModeExDataIndex st) None,
                           st\<lparr>messages := messages st @ msgs\<rparr>)
                else interactive_check_cert cfg env cert pos len ssl True
                       (st\<lparr>messages := messages st @ msgs\<rparr>))
         else interactive_check_cert cfg env cert pos len ssl True st)
      else Some (1, ssl, st))"

definition ssl_verify_callback ::
  "tls_config \<Rightarrow> call_env \<Rightarrow> bool \<Rightarrow> SSL option \<Rightarrow> x509 \<Rightarrow> int \<Rightarrow> nat \<Rightarrow> tls_state
   \<Rightarrow> (int \<times> SSL option \<times> tls_state) option"
where
  "ssl_verify_callback cfg env preverify_ok ctx_ssl cert pos len st =
     (case ctx_ssl of
        None \<Rightarrow> Some (0, None, st)
      | Some ssl \<Rightarrow>
          (case SSL_get_ex_data ssl (HostExDataIndex st) of
             None \<Rightarrow> Some (0, Some ssl, st)
           | Some Skip_marker \<Rightarrow> None
           | Some (Host_name host) \<Rightarrow>
               if duplicate_skipped cfg preverify_ok ssl cert pos st then Some (1, Some ssl, st)
               else map_option (\<lambda>(rc, ssl', st'). (rc, Some ssl', st'))
                      (trust_decision cfg env preverify_ok ssl host cert pos len
                         (remember_last cfg cert pos st))))"

text \<open>
  \<open>ssl_negotiate(conn, ssldata)\<close> up to the start of the handshake. It asks the
  library for a new index for the host name, stores the host name of the connection
  under it in the SSL structure, asks for another new index for the skip marker and
  stores NULL under it; each of the four library calls can fail, and then the function
  returns -1 with what it has assigned so far. Both callers hand over a structure that
  \<open>SSL_new\<close> has just made. The result is the return value (0: the callback is
  registered and the handshake starts), the SSL structure, the number of indexes handed
  out, and the state.
\<close>

datatype negotiate_fault =
  No_fault | Host_index_fails | Host_set_fails | Skip_index_fails | Skip_set_fails

definition ssl_negotiate_prepare ::
  "negotiate_fault \<Rightarrow> string \<Rightarrow> SSL \<Rightarrow> nat \<Rightarrow> tls_state \<Rightarrow> int \<times> SSL \<times> nat \<times> tls_state"
where
  "ssl_negotiate_prepare fault host ssl n st =
     (case SSL_get_ex_new_index (fault \<noteq> Host_index_fails) n of
        (hidx, n1) \<Rightarrow>
          (let st1 = st\<lparr>HostExDataIndex := hidx\<rparr> in
           if hidx = - 1 then (- 1, ssl, n1, st1)
           else if fault = Host_set_fails then (- 1, ssl, n1, st1)
           else
             (let ssl1 = SSL_set_ex_data ssl hidx (Some (Host_name host)) in
              case SSL_get_ex_new_index (fault \<noteq> Skip_index_fails) n1 of
                (sidx, n2) \<Rightarrow>
                  (let st2 = st1\<lparr>SkipModeExDataIndex := sidx\<rparr> in
                   if sidx = - 1 then (- 1, ssl1, n2, st2)
                   else if fault = Skip_set_fails then (- 1, ssl1, n2, st2)
                   else (0, SSL_set_ex_data ssl1 sidx None, n2, st2)))))"

text \<open>
  The life of the engine in a process. A world holds the SSL structures on which the
  callback is registered, in the order of their connections, the number of indexes the
  library has handed out, and the engine's state; \<open>latest\<close> is bookkeeping: the
  position of the structure set up by the most recent call of \<open>ssl_negotiate\<close>, when
  that call got as far as the handshake. \<open>Negotiate\<close> is a call of \<open>ssl_negotiate\<close> on a
  new structure; when it fails before the handshake the structure is given up.
  \<open>Verify k\<close> is the library calling the callback on the structure at position \<open>k\<close>, in
  the handshake of its connection or in a later renegotiation.
\<close>

record tls_world =
  ssls :: "SSL list"
  ex_index_count :: nat
  latest :: "nat option"
  engine :: tls_state

datatype tls_event = Negotiate string negotiate_fault | Verify nat call_env bool x509 int nat

fun tls_step :: "tls_config \<Rightarrow> tls_event \<Rightarrow> tls_world \<Rightarrow> tls_world option" where
  "tls_step cfg (Negotiate host fault) w =
     (case ssl_negotiate_prepare fault host SSL_new (ex_index_count w) (engine w) of
        (rc, ssl, n, st) \<Rightarrow>
          Some (if rc = 0
                then \<lparr>ssls = ssls w @ [ssl], ex_index_count = n,
                      latest = Some (length (ssls w)), engine = st\<rparr>
                else \<lparr>ssls = ssls w, ex_index_count = n, latest = None, engine = st\<rparr>))"
| "tls_step cfg (Verify k env preverify_ok cert pos len) w =
     (if k < length (ssls w)
      then
        (case ssl_verify_callback cfg env preverify_ok (Some (ssls w ! k)) cert pos len (engine w) of
           None \<Rightarrow> None
         | Some (rc, None, st') \<Rightarrow> Some (w\<lparr>engine := st'\<rparr>)
         | Some (rc, Some ssl', st') \<Rightarrow> Some (w\<lparr>ssls := (ssls w)[k := ssl'], engine := st'\<rparr>))
      else None)"

fun tls_run :: "tls_config \<Rightarrow> tls_event list \<Rightarrow> tls_world \<Rightarrow> tls_world option" where
  "tls_run cfg [] w = Some w"
| "tls_run cfg (e # es) w =
     (case tls_step cfg e w of None \<Rightarrow> None | Some w' \<Rightarrow> tls_run cfg es w')"

text \<open>A process in which \<open>ssl_negotiate\<close> has not been called yet.\<close>

definition tls_start :: "nat \<Rightarrow> tls_state \<Rightarrow> tls_world" where
  "tls_start n st = \<lparr>ssls = [], ex_index_count = n, latest = None, engine = st\<rparr>"

text \<open>
  Between two calls of the callback, for the structure negotiated last: the host name
  is under \<open>HostExDataIndex\<close>, the two indexes differ and have been handed out, and a
  skip marker that is set was set for the certificate remembered in \<open>last_cert\<close>, which
  is not in the session trust sequence. No structure holds data under an index that
  has not been handed out, and no other structure holds anything under
  \<open>HostExDataIndex\<close>.
\<close>

definition ssl_inv :: "tls_config \<Rightarrow> nat \<Rightarrow> SSL \<Rightarrow> tls_state \<Rightarrow> bool" where
  "ssl_inv cfg n ssl st =
     ((\<exists>host. SSL_get_ex_data ssl (HostExDataIndex st) = Some (Host_name host))
      \<and> 0 \<le> SkipModeExDataIndex st
      \<and> SkipModeExDataIndex st \<noteq> HostExDataIndex st
      \<and> SkipModeExDataIndex st < int n
      \<and> (if skip_mode ssl st
         then HAVE_SSL_PARTIAL_CHAIN cfg \<and> SslVerifyPartialChains cfg
              \<and> (case last_cert st of
                    None \<Rightarrow> False
                  | Some l \<Rightarrow> \<not> check_certificate_cache (SslSessionCerts st) l)
         else True))"

definition tls_inv :: "tls_config \<Rightarrow> tls_world \<Rightarrow> bool" where
  "tls_inv cfg w =
     ((\<forall>k < length (ssls w). \<forall>idx \<ge> int (ex_index_count w). ex_data (ssls w ! k) idx = None)
      \<and> (\<forall>k < length (ssls w). latest w \<noteq> Some k \<longrightarrow>
            SSL_get_ex_data (ssls w ! k) (HostExDataIndex (engine w)) = None)
      \<and> (case latest w of
            None \<Rightarrow> True
          | Some k \<Rightarrow> k < length (ssls w)
                      \<and> ssl_inv cfg (ex_index_count w) (ssls w ! k) (engine w)))"

text \<open>Whether a text occurs inside another, for reading a prompt line.\<close>

fun has_infix :: "string \<Rightarrow> string \<Rightarrow> bool" where
  "has_infix pat [] = (pat = [])"
| "has_infix pat (x # xs) = (take (length pat) (x # xs) = pat \<or> has_infix pat xs)"

text \<open>
  The condition in the words of the specification: the certificate is within its
  validity dates at the given time.
\<close>

definition within_validity :: "int \<Rightarrow> x509 \<Rightarrow> bool" where
  "within_validity now cert =
     (case (notBefore cert, notAfter cert) of
        (Some nb, Some na) \<Rightarrow> nb \<le> now \<and> now < na
      | _ \<Rightarrow> False)"

text \<open>Concrete values used to run the engine: a self-signed certificate, two configurations, a fresh engine, an SSL structure with a host name.\<close>

definition example_cert :: x509 where
  "example_cert =
     \<lparr>subject_name = Some [(NID_commonName, ''mail.example.com'')],
      issuer_name = [(NID_commonName, ''mail.example.com'')],
      sha256 = Some ''digest-of-mail.example.com'',
      notBefore = Some 0, notAfter = Some 1000,
      subject_alt_names = None\<rparr>"

definition example_config :: tls_config where
  "example_config =
     \<lparr>HAVE_SSL_PARTIAL_CHAIN = True, idna_to_ascii = (\<lambda>h. None),
      SslVerifyDates = True, SslVerifyHost = True, SslVerifyPartialChains = True,
      CertificateFile = Some ''/home/user/.mutt_certificates''\<rparr>"

definition example_config_no_dates :: tls_config where
  "example_config_no_dates = example_config\<lparr>SslVerifyDates := False\<rparr>"

definition example_engine :: tls_state where
  "example_engine =
     \<lparr>HostExDataIndex = - 1, SkipModeExDataIndex = - 1, SslSessionCerts = [], last_pos = 0, last_cert = None, trust_file = Some [],
      trust_file_appendable = True, messages = [], menus = []\<rparr>"

definition example_ssl :: SSL where
  "example_ssl = SSL_set_ex_data SSL_new 0 (Some (Host_name ''mail.example.com''))"

text \<open>
  A run of a process: a connection on which the user accepts the certificate once,
  followed by a second connection to the same server.
\<close>

definition example_events :: "tls_event list" where
  "example_events =
     [Negotiate ''mail.example.com'' No_fault,
      Verify 0 \<lparr>clock = 100, typed = [Op_accept_once]\<rparr> False example_cert 0 1,
      Negotiate ''mail.example.com'' No_fault]"

text \<open>The world at the end of that run: two SSL structures, the second negotiated last.\<close>

definition example_after :: tls_world where
  "example_after =
     \<lparr>ssls = [SSL_set_ex_data SSL_new 0 (Some (Host_name ''mail.example.com'')),
              SSL_set_ex_data SSL_new 2 (Some (Host_name ''mail.example.com''))],
      ex_index_count = 4, latest = Some 1,
      engine = example_engine\<lparr>HostExDataIndex := 2, SkipModeExDataIndex := 3,
                 last_pos := 0, last_cert := Some example_cert,
                 menus := [build_menu example_config 100 example_cert 0 1 True],
                 SslSessionCerts := [example_cert]\<rparr>\<rparr>"

section \<open>POP3 mailbox driver (pop.c)\<close>

text \<open>
  \<open>struct Header\<close> as the driver uses it: the UIDL kept in \<open>data\<close>, the message
  number \<open>refno\<close> of the current connection, the position \<open>index\<close>, the flags, and
  the envelope as the header parser left it. Every record of a POP mailbox carries its
  UIDL.
\<close>

record Header =
  data :: string
  refno :: int
  index :: int
  deleted :: bool
  old :: bool
  read :: bool
  changed :: bool
  envelope :: "string list"

text \<open>\<open>mutt_new_header\<close> returns a zeroed record.\<close>

definition mutt_new_header :: Header where
  "mutt_new_header =
     \<lparr>data = [], refno = 0, index = 0, deleted = False, old = False, read = False,
      changed = False, envelope = []\<rparr>"

text \<open>
  The server as seen through one connection: its replies to the commands still to come.
  A reply is \<open>+OK\<close> with a status text and, for a multi-line command, the data lines
  up to the terminating dot; or \<open>+OK\<close> with data lines after which the connection is
  lost; or \<open>-ERR\<close> with its text; or a lost connection. With no reply left the
  connection is lost.
\<close>

datatype reply =
  Rep_ok string "string list" | Rep_cut string "string list" | Rep_err string | Rep_lost

datatype pop_cmd = UIDL | LIST int | TOP int | RETR int | DELE int | QUIT

datatype ui_event = Error string | Error_lost nat | Perror | Message string | Clear_error

text \<open>
  The state the driver works on, in one record: of \<open>struct Context\<close> the header array
  and \<open>msgcount\<close> (only the first \<open>msgcount\<close> cells of \<open>hdrs\<close> are the mailbox
  view); of \<open>struct PopData\<close> the capability states (0 absent, 1 present, 2 unknown),
  \<open>check_time\<close>, \<open>clear_cache\<close>, \<open>err_msg\<close>, the ids in the body cache and the
  fallback array of (index, path) pairs; the server (\<open>script\<close>) and the commands sent
  to it; the header cache; whether a temporary file can be opened and written, and the
  lines written to the file that is open; whether a file of the fallback array can be
  opened for reading; and what the user has been shown.
\<close>

record pop_world =
  hdrs :: "Header list"
  msgcount :: nat
  cmd_uidl :: nat
  cmd_top :: nat
  check_time :: int
  clear_cache :: bool
  err_msg :: string
  bcache :: "string list"
  bcache_put_ok :: bool
  pop_cache :: "(int \<times> string) option list"
  script :: "reply list"
  sent :: "pop_cmd list"
  hcache :: "(string \<times> Header) list"
  tmp_open_ok :: bool
  tmp_write_ok :: bool
  tmpfile :: "string list"
  cache_readable :: bool
  ui :: "ui_event list"

text \<open>
  The build option \<open>USE_HCACHE\<close>, the user's settings, two constants of headers that
  are not part of the sources at hand, and two collaborators: the RFC 822 header parser
  (given the status text of \<open>LIST\<close>, the lines of the temporary file and the record;
  it stands for the parse and the bookkeeping of the content length) and
  \<open>pop_open_connection\<close>.
\<close>

record pop_config =
  USE_HCACHE :: bool
  MarkOld :: bool
  MessageCacheClean :: bool
  PopCheckinterval :: int
  POP_CACHE_LEN :: nat
  MUTT_NEW_MAIL :: int
  mutt_read_rfc822_header :: "string \<Rightarrow> string list \<Rightarrow> Header \<Rightarrow> Header"
  pop_open_connection :: "pop_world \<Rightarrow> int \<times> pop_world"

subsection \<open>Numbers in a line: strtol and the conversion to int\<close>

definition LONG_MAX :: int where "LONG_MAX = 2 ^ 63 - 1"
definition LONG_MIN :: int where "LONG_MIN = - (2 ^ 63)"

text \<open>The conversion of a \<open>long\<close> to \<open>int\<close>, and \<open>int\<close> arithmetic, wrap at 32 bits.\<close>

definition to_int32 :: "int \<Rightarrow> int" where
  "to_int32 v = (v + 2 ^ 31) mod 2 ^ 32 - 2 ^ 31"

definition isspace :: "char \<Rightarrow> bool" where
  "isspace c = (let n = (of_char c :: nat) in n = 32 \<or> (9 \<le> n \<and> n \<le> 13))"

definition isdigit :: "char \<Rightarrow> bool" where
  "isdigit c = (let n = (of_char c :: nat) in 48 \<le> n \<and> n \<le> 57)"

fun digits_value :: "int \<Rightarrow> string \<Rightarrow> int \<times> string" where
  "digits_value acc [] = (acc, [])"
| "digits_value acc (c # cs) =
     (if isdigit c then digits_value (10 * acc + (int (of_char c) - 48)) cs else (acc, c # cs))"

text \<open>
  \<open>strtol(line, &endp, 10)\<close>: the value, the rest of the line at \<open>endp\<close>, and
  whether \<open>errno\<close> was set (the value is out of the range of \<open>long\<close>). Without a
  digit there is no conversion: the value is 0 and \<open>endp\<close> is the line.
\<close>

definition strtol :: "string \<Rightarrow> int \<times> string \<times> bool" where
  "strtol s =
     (let s1 = dropWhile isspace s;
          neg = (s1 \<noteq> [] \<and> hd s1 = CHR ''-'');
          s2 = (if s1 \<noteq> [] \<and> (hd s1 = CHR ''-'' \<or> hd s1 = CHR ''+'') then tl s1 else s1)
      in if s2 = [] \<or> \<not> isdigit (hd s2) then (0, s, False)
         else (case digits_value 0 s2 of
                 (v, rest) \<Rightarrow>
                   (let v' = (if neg then - v else v)
                    in if v' > LONG_MAX then (LONG_MAX, rest, True)
                       else if v' < LONG_MIN then (LONG_MIN, rest, True)
                       else (v', rest, False))))"

subsection \<open>The UIDL listing\<close>

text \<open>
  The search loop of \<open>fetch_uidl\<close>: the first position whose record has the UIDL, or
  the number of records when there is none.
\<close>

fun uidl_pos :: "string \<Rightarrow> Header list \<Rightarrow> nat" where
  "uidl_pos u [] = 0"
| "uidl_pos u (h # hs) = (if u = data h then 0 else Suc (uidl_pos u hs))"

text \<open>\<open>fetch_uidl(line, ctx)\<close>: the return value and the state.\<close>

definition fetch_uidl :: "string \<Rightarrow> pop_world \<Rightarrow> int \<times> pop_world" where
  "fetch_uidl line w =
     (case strtol line of
        (v, endp, errno_set) \<Rightarrow>
          if errno_set then (- 1, w)
          else
            (let idx = to_int32 v;
                 uidl = dropWhile (\<lambda>c. c = CHR '' '') endp;
                 view = take (msgcount w) (hdrs w);
                 i = uidl_pos uidl view;
                 w1 = (if i = msgcount w
                       then w\<lparr>msgcount := msgcount w + 1,
                              hdrs := view @ [mutt_new_header\<lparr>data := uidl\<rparr>]\<rparr>
                       else if index (hdrs w ! i) \<noteq> to_int32 (idx - 1)
                       then w\<lparr>clear_cache := True\<rparr>
                       else w)
             in (0, w1\<lparr>hdrs := (hdrs w1)[i := (hdrs w1 ! i)\<lparr>refno := idx,
                                                            index := to_int32 (idx - 1)\<rparr>]\<rparr>)))"

subsection \<open>Commands and replies\<close>

text \<open>
  Modelled from the spec: \<open>pop_query\<close> is defined in pop_lib.c, which is not among
  the sources. "query(cmd) returns 0 on +OK, -2 on -ERR (captures the server error line
  into err_msg), -1 on transport failure." The result is the return value, the status
  text left in the buffer and the state.
\<close>

definition pop_query :: "pop_cmd \<Rightarrow> pop_world \<Rightarrow> int \<times> string \<times> pop_world" where
  "pop_query cmd w =
     (let w1 = w\<lparr>sent := sent w @ [cmd]\<rparr>
      in case script w of
           [] \<Rightarrow> (- 1, [], w1)
         | r # rest \<Rightarrow>
             (case r of
                Rep_ok s ls \<Rightarrow> (0, s, w1\<lparr>script := rest\<rparr>)
              | Rep_cut s ls \<Rightarrow> (0, s, w1\<lparr>script := rest\<rparr>)
              | Rep_err e \<Rightarrow> (- 2, e, w1\<lparr>script := rest, err_msg := e\<rparr>)
              | Rep_lost \<Rightarrow> (- 1, [], w1\<lparr>script := rest\<rparr>)))"

text \<open>
  Modelled from the spec: the line loop of \<open>pop_fetch_data\<close> (pop_lib.c, not among
  the sources). "For each data line it invokes line_cb(line, ctx) ... A nonzero callback
  return propagates as -3." After a callback has failed no further line is handed over.
\<close>

fun feed_lines ::
  "(string \<Rightarrow> pop_world \<Rightarrow> int \<times> pop_world) \<Rightarrow> string list \<Rightarrow> int \<Rightarrow> pop_world
   \<Rightarrow> int \<times> pop_world"
where
  "feed_lines cb [] ret w = (ret, w)"
| "feed_lines cb (l # ls) ret w =
     (if ret = 0
      then (case cb l w of (r, w') \<Rightarrow> feed_lines cb ls (if r \<noteq> 0 then - 3 else 0) w')
      else feed_lines cb ls ret w)"

text \<open>
  Modelled from the spec: \<open>pop_fetch_data\<close> (pop_lib.c, not among the sources).
  "fetch_data(cmd, progress, line_cb, ctx) streams the multi-line body"; the status line
  is read as by \<open>query\<close>, and a connection lost inside the body is a transport failure
  (-1).
\<close>

definition pop_fetch_data ::
  "pop_cmd \<Rightarrow> (string \<Rightarrow> pop_world \<Rightarrow> int \<times> pop_world) \<Rightarrow> pop_world \<Rightarrow> int \<times> pop_world"
where
  "pop_fetch_data cmd cb w =
     (let w1 = w\<lparr>sent := sent w @ [cmd]\<rparr>
      in case script w of
           [] \<Rightarrow> (- 1, w1)
         | r # rest \<Rightarrow>
             (case r of
                Rep_ok s ls \<Rightarrow> feed_lines cb ls 0 (w1\<lparr>script := rest\<rparr>)
              | Rep_cut s ls \<Rightarrow> (- 1, snd (feed_lines cb ls 0 (w1\<lparr>script := rest\<rparr>)))
              | Rep_err e \<Rightarrow> (- 2, w1\<lparr>script := rest, err_msg := e\<rparr>)
              | Rep_lost \<Rightarrow> (- 1, w1\<lparr>script := rest\<rparr>)))"

text \<open>\<open>fetch_message(line, file)\<close> writes the line to the open file.\<close>

definition fetch_message :: "string \<Rightarrow> pop_world \<Rightarrow> int \<times> pop_world" where
  "fetch_message line w =
     (if tmp_write_ok w then (0, w\<lparr>tmpfile := tmpfile w @ [line]\<rparr>) else (- 1, w))"

subsection \<open>Reading one header\<close>

text \<open>\<open>pop_read_header(pop_data, h)\<close>: the return value, the record and the state.\<close>

definition note_top_capability :: "int \<Rightarrow> pop_world \<Rightarrow> pop_world" where
  "note_top_capability rc w =
     (if cmd_top w = 2
      then (if rc = 0 then w\<lparr>cmd_top := 1\<rparr>
            else if rc = - 2
            then w\<lparr>cmd_top := 0, err_msg := ''Command TOP is not supported by server.''\<rparr>
            else w)
      else w)"

definition pop_read_header :: "pop_config \<Rightarrow> Header \<Rightarrow> pop_world \<Rightarrow> int \<times> Header \<times> pop_world" where
  "pop_read_header cfg h w =
     (if \<not> tmp_open_ok w then (- 3, h, w\<lparr>ui := ui w @ [Perror]\<rparr>)
      else
        (case pop_query (LIST (refno h)) (w\<lparr>tmpfile := []\<rparr>) of
           (rc0, buf, w1) \<Rightarrow>
             (case (if rc0 = 0
                    then (case pop_fetch_data (TOP (refno h)) fetch_message w1 of
                            (rc1, wa) \<Rightarrow> (rc1, note_top_capability rc1 wa))
                    else (rc0, w1)) of
                (rc, w2) \<Rightarrow>
                  if rc = 0 then (rc, mutt_read_rfc822_header cfg buf (tmpfile w2) h, w2)
                  else if rc = - 2 then (rc, h, w2\<lparr>ui := ui w2 @ [Error (err_msg w2)]\<rparr>)
                  else if rc = - 3
                  then (rc, h, w2\<lparr>ui := ui w2 @ [Error ''Can't write header to temporary file!'']\<rparr>)
                  else (rc, h, w2))))"

subsection \<open>Fetching the headers\<close>

text \<open>
  The start of \<open>pop_fetch_headers\<close>: the clock is stored in \<open>check_time\<close>,
  \<open>clear_cache\<close> is reset, every record of the view gets \<open>refno\<close> -1, and the UIDL
  listing is read. The result is \<open>ret\<close>, \<open>new_count\<close> and the state, in which
  \<open>msgcount\<close> is \<open>old_count\<close> again.
\<close>

definition forget_refnos :: "pop_world \<Rightarrow> pop_world" where
  "forget_refnos w =
     w\<lparr>hdrs := map (\<lambda>h. h\<lparr>refno := - 1\<rparr>) (take (msgcount w) (hdrs w)) @ drop (msgcount w) (hdrs w)\<rparr>"

definition enumerate_uidls :: "int \<Rightarrow> pop_world \<Rightarrow> int \<times> nat \<times> pop_world" where
  "enumerate_uidls now w =
     (case pop_fetch_data UIDL fetch_uidl
             (forget_refnos (w\<lparr>check_time := now, clear_cache := False\<rparr>)) of
        (ret, w3) \<Rightarrow> (ret, msgcount w3, w3\<lparr>msgcount := msgcount w\<rparr>))"

definition note_uidl_capability :: "int \<Rightarrow> pop_world \<Rightarrow> pop_world" where
  "note_uidl_capability ret w =
     (if cmd_uidl w = 2
      then (if ret = 0 then w\<lparr>cmd_uidl := 1\<rparr>
            else if ret = - 2
            then w\<lparr>cmd_uidl := 0, err_msg := ''Command UIDL is not supported by server.''\<rparr>
            else w)
      else w)"

text \<open>The loop over the old records: those still at \<open>refno\<close> -1 are marked deleted and counted.\<close>

definition mark_lost :: "nat \<Rightarrow> pop_world \<Rightarrow> pop_world" where
  "mark_lost old_count w =
     (let lost = length (filter (\<lambda>h. refno h = - 1) (take old_count (hdrs w)));
          w1 = w\<lparr>hdrs := map (\<lambda>h. if refno h = - 1 then h\<lparr>deleted := True\<rparr> else h)
                            (take old_count (hdrs w)) @ drop old_count (hdrs w)\<rparr>
      in if lost > 0 then w1\<lparr>ui := ui w1 @ [Error_lost lost]\<rparr> else w1)"

text \<open>The flags of a new record, from \<open>hcached\<close> and \<open>bcached\<close>.\<close>

definition set_flags :: "pop_config \<Rightarrow> bool \<Rightarrow> bool \<Rightarrow> Header \<Rightarrow> Header" where
  "set_flags cfg hcached bcached h =
     (let h0 = h\<lparr>old := False, read := False\<rparr>
      in if hcached
         then (if bcached then h0\<lparr>read := True\<rparr>
               else if MarkOld cfg then h0\<lparr>old := True\<rparr> else h0)
         else (if bcached then h0\<lparr>read := True\<rparr> else h0))"

text \<open>
  One round of the loop over the new records, for the record at position \<open>i\<close>: the
  header cache is tried first (with \<open>USE_HCACHE\<close>), then the server. The variable
  \<open>hcached\<close> is declared outside the loop, so it is handed from one round to the
  next. The result is \<open>ret\<close>, \<open>hcached\<close> and the state; after a failure
  (\<open>ret < 0\<close>) the loop is left before the flags are set.
\<close>

definition new_header_step :: "pop_config \<Rightarrow> nat \<Rightarrow> bool \<Rightarrow> pop_world \<Rightarrow> int \<times> bool \<times> pop_world" where
  "new_header_step cfg i hcached w =
     (let h = hdrs w ! i
      in case (if USE_HCACHE cfg then map_of (hcache w) (data h) else None) of
           Some restored \<Rightarrow>
             (let h1 = restored\<lparr>refno := refno h, index := index h, data := data h\<rparr>;
                  h2 = set_flags cfg True (data h1 \<in> set (bcache w)) h1
              in (0, True, w\<lparr>hdrs := (hdrs w)[i := h2], msgcount := msgcount w + 1\<rparr>))
         | None \<Rightarrow>
             (case pop_read_header cfg h w of
                (ret, h1, w1) \<Rightarrow>
                  if ret < 0 then (ret, hcached, w1)
                  else
                    (let w2 = (if USE_HCACHE cfg
                               then w1\<lparr>hcache := (data h1, h1) # hcache w1\<rparr> else w1);
                         h2 = set_flags cfg hcached (data h1 \<in> set (bcache w2)) h1
                     in (ret, hcached,
                         w2\<lparr>hdrs := (hdrs w2)[i := h2], msgcount := msgcount w2 + 1\<rparr>))))"

text \<open>The loop over the new records, from \<open>i\<close> to \<open>new_count\<close>: \<open>ret\<close> and the state.\<close>

function new_headers_loop ::
  "pop_config \<Rightarrow> nat \<Rightarrow> nat \<Rightarrow> bool \<Rightarrow> pop_world \<Rightarrow> int \<times> pop_world"
where
  "new_headers_loop cfg i new_count hcached w =
     (if i < new_count then
        (case new_header_step cfg i hcached w of
           (ret, hcached', w') \<Rightarrow>
             if ret < 0 then (ret, w')
             else new_headers_loop cfg (Suc i) new_count hcached' w')
      else (0, w))"
  by pat_completeness auto
termination
  by (relation "measure (\<lambda>(cfg, i, new_count, hcached, w). new_count - i)") auto

declare new_headers_loop.simps [simp del]

text \<open>\<open>msg_cache_check\<close> applied to every id of the body cache by \<open>mutt_bcache_list\<close>.\<close>

definition sweep_bcache :: "pop_config \<Rightarrow> pop_world \<Rightarrow> pop_world" where
  "sweep_bcache cfg w =
     w\<lparr>bcache := filter (\<lambda>id. (USE_HCACHE cfg \<and> id = ''neomutt.hcache'')
                             \<or> list_ex (\<lambda>h. data h = id) (take (msgcount w) (hdrs w)))
                   (bcache w)\<rparr>"

text \<open>
  \<open>pop_fetch_headers(ctx)\<close>, with the clock as an argument. The progress display
  and \<open>mx_update_context\<close>, which updates counters and indexes of the mailbox, touch
  none of the fields kept here.
\<close>

definition pop_fetch_headers :: "pop_config \<Rightarrow> int \<Rightarrow> pop_world \<Rightarrow> int \<times> pop_world" where
  "pop_fetch_headers cfg now w =
     (case enumerate_uidls now w of
        (ret0, new_count, w4) \<Rightarrow>
          (let old_count = msgcount w;
               w5 = note_uidl_capability ret0 w4
           in case (if ret0 = 0
                    then new_headers_loop cfg old_count new_count False (mark_lost old_count w5)
                    else (ret0, w5)) of
                (ret, w7) \<Rightarrow>
                  if ret < 0 then (ret, w7\<lparr>hdrs := take (msgcount w7) (hdrs w7)\<rparr>)
                  else
                    (let w8 = (if MessageCacheClean cfg then sweep_bcache cfg w7 else w7)
                     in (int new_count - int old_count, w8\<lparr>ui := ui w8 @ [Clear_error]\<rparr>))))"

subsection \<open>Checking the mailbox\<close>

definition pop_clear_cache :: "pop_world \<Rightarrow> pop_world" where
  "pop_clear_cache w =
     (if \<not> clear_cache w then w else w\<lparr>pop_cache := map (\<lambda>e. None) (pop_cache w)\<rparr>)"

text \<open>
  \<open>pop_check_mailbox(ctx, index_hint)\<close>, with the clock as an argument. Logging out
  and closing the socket touch none of the fields kept here.
\<close>

definition pop_check_mailbox :: "pop_config \<Rightarrow> int \<Rightarrow> pop_world \<Rightarrow> int \<times> pop_world" where
  "pop_check_mailbox cfg now w =
     (if check_time w + PopCheckinterval cfg > now then (0, w)
      else
        (case pop_open_connection cfg w of
           (rc, w1) \<Rightarrow>
             if rc < 0 then (- 1, w1)
             else
               (case pop_fetch_headers cfg now
                       (w1\<lparr>ui := ui w1 @ [Message ''Checking for new messages...'']\<rparr>) of
                  (ret, w2) \<Rightarrow>
                    (if ret < 0 then - 1 else if ret > 0 then MUTT_NEW_MAIL cfg else 0,
                     pop_clear_cache w2))))"

text \<open>Two states agree on what a session remembers about the server and the last check.\<close>

definition same_session :: "pop_world \<Rightarrow> pop_world \<Rightarrow> bool" where
  "same_session w w' = (check_time w' = check_time w \<and> cmd_uidl w' = cmd_uidl w)"

text \<open>Several calls of \<open>pop_fetch_headers\<close> in a row, at the given clock readings.\<close>

fun fetch_headers_many :: "pop_config \<Rightarrow> int list \<Rightarrow> pop_world \<Rightarrow> pop_world" where
  "fetch_headers_many cfg [] w = w"
| "fetch_headers_many cfg (t # ts) w = fetch_headers_many cfg ts (snd (pop_fetch_headers cfg t w))"

text \<open>The counts of lost messages among what the user has been shown, in order.\<close>

fun lost_reports :: "ui_event list \<Rightarrow> nat list" where
  "lost_reports [] = []"
| "lost_reports (Error_lost n # es) = n # lost_reports es"
| "lost_reports (e # es) = lost_reports es"

text \<open>
  Two states show the same mailbox view, and the user has been shown the same counts
  of lost messages.
\<close>

definition same_view :: "pop_world \<Rightarrow> pop_world \<Rightarrow> bool" where
  "same_view w w' =
     (hdrs w' = hdrs w \<and> msgcount w' = msgcount w
      \<and> lost_reports (ui w') = lost_reports (ui w))"

text \<open>
  While the UIDL listing is read: the first \<open>n0\<close> records of the view \<open>w0\<close> keep their
  UIDL and their deleted flag and have \<open>refno\<close> -1 or a positive one, and every
  record added since has a positive \<open>refno\<close>.
\<close>

definition listing_inv :: "nat \<Rightarrow> pop_world \<Rightarrow> pop_world \<Rightarrow> bool" where
  "listing_inv n0 w0 w =
     (n0 \<le> msgcount w \<and> msgcount w \<le> length (hdrs w)
      \<and> (\<forall>i<n0. data (hdrs w ! i) = data (hdrs w0 ! i)
                  \<and> deleted (hdrs w ! i) = deleted (hdrs w0 ! i)
                  \<and> (refno (hdrs w ! i) = - 1 \<or> 0 < refno (hdrs w ! i)))
      \<and> (\<forall>i. n0 \<le> i \<and> i < msgcount w \<longrightarrow> 0 < refno (hdrs w ! i)))"

text \<open>The number a line of the listing carries, as \<open>fetch_uidl\<close> reads it.\<close>

definition line_number :: "string \<Rightarrow> int" where
  "line_number l = to_int32 (fst (strtol l))"

text \<open>
  What one successful round of the loop over the new records does at position \<open>i\<close>,
  and what the rounds from \<open>i\<close> to \<open>nc\<close> do together: \<open>msgcount\<close> grows, the
  header array keeps its length and every \<open>refno\<close>, the other records (the records
  before \<open>i\<close>) are untouched, and no count of lost messages is shown.
\<close>

definition step_ok :: "nat \<Rightarrow> pop_world \<Rightarrow> pop_world \<Rightarrow> bool" where
  "step_ok i w w' =
     (msgcount w' = msgcount w + 1 \<and> length (hdrs w') = length (hdrs w)
      \<and> (\<forall>j<length (hdrs w). refno (hdrs w' ! j) = refno (hdrs w ! j))
      \<and> (\<forall>j. j \<noteq> i \<longrightarrow> hdrs w' ! j = hdrs w ! j)
      \<and> lost_reports (ui w') = lost_reports (ui w))"

definition loop_ok2 :: "nat \<Rightarrow> nat \<Rightarrow> pop_world \<Rightarrow> pop_world \<Rightarrow> bool" where
  "loop_ok2 i nc w w' =
     (msgcount w' = msgcount w + (nc - i) \<and> length (hdrs w') = length (hdrs w)
      \<and> (\<forall>j<length (hdrs w). refno (hdrs w' ! j) = refno (hdrs w ! j))
      \<and> (\<forall>j<i. hdrs w' ! j = hdrs w ! j)
      \<and> lost_reports (ui w') = lost_reports (ui w))"

subsection \<open>Fetching a message\<close>

text \<open>
  What a call of \<open>pop_reconnect\<close> meets: the connection is still there, or it cannot
  be opened again, or it is opened again and the server lists the given UIDLs with
  their new message numbers.
\<close>

datatype reconnect_outcome =
  Still_connected | Reconnect_failed | Reconnected "(string \<times> int) list"

text \<open>
  Modelled from the spec: \<open>pop_reconnect\<close> is defined in pop_lib.c, which is not among
  the sources. "If already connected, noop. If disconnected, reopen, re-authenticate,
  re-enumerate UIDLs (refno recovery is mandatory), flush body cache if clear_cache was
  set." A record whose UIDL the server no longer lists is left at \<open>refno\<close> -1.
\<close>

definition pop_reconnect :: "reconnect_outcome \<Rightarrow> pop_world \<Rightarrow> int \<times> pop_world" where
  "pop_reconnect out w =
     (case out of
        Still_connected \<Rightarrow> (0, w)
      | Reconnect_failed \<Rightarrow> (- 1, w)
      | Reconnected listing \<Rightarrow>
          (0, pop_clear_cache
                (w\<lparr>hdrs := map (\<lambda>h. h\<lparr>refno := (case map_of listing (data h) of
                                                     Some n \<Rightarrow> n | None \<Rightarrow> - 1)\<rparr>)
                                (take (msgcount w) (hdrs w))
                              @ drop (msgcount w) (hdrs w)\<rparr>)))"

text \<open>
  The \<open>while (true)\<close> loop of \<open>pop_fetch_message\<close>. Every round starts with a call
  of \<open>pop_reconnect\<close>, whose outcomes are given as a list; when the list is used up
  the connection cannot be opened again. The result is 0 when the loop is left by
  \<open>break\<close> and -1 when the function returns -1 from inside the loop, the variable
  \<open>bcache\<close>, and the state.
\<close>

fun fetch_message_loop ::
  "pop_config \<Rightarrow> nat \<Rightarrow> reconnect_outcome list \<Rightarrow> bool \<Rightarrow> pop_world \<Rightarrow> int \<times> bool \<times> pop_world"
where
  "fetch_message_loop cfg msgno [] bc w = (- 1, bc, w)"
| "fetch_message_loop cfg msgno (out # outs) bc w =
     (case pop_reconnect out w of
        (rc, w1) \<Rightarrow>
          if rc < 0 then (- 1, bc, w1)
          else if refno (hdrs w1 ! msgno) < 0
          then (- 1, bc,
                w1\<lparr>ui := ui w1 @
                   [Error ''The message index is incorrect. Try reopening the mailbox.'']\<rparr>)
          else
            (case (if bcache_put_ok w1 then Some bc
                   else if tmp_open_ok w1 then Some False else None) of
               None \<Rightarrow> (- 1, False, w1\<lparr>ui := ui w1 @ [Perror]\<rparr>)
             | Some bc1 \<Rightarrow>
                 (case pop_fetch_data (RETR (refno (hdrs w1 ! msgno))) fetch_message
                         (w1\<lparr>tmpfile := []\<rparr>) of
                    (ret, w2) \<Rightarrow>
                      if ret = 0 then (0, bc1, w2)
                      else if ret = - 2
                      then (- 1, bc1, w2\<lparr>ui := ui w2 @ [Error (err_msg w2)]\<rparr>)
                      else if ret = - 3
                      then (- 1, bc1,
                            w2\<lparr>ui := ui w2 @ [Error ''Can't write message to temporary file!'']\<rparr>)
                      else fetch_message_loop cfg msgno outs bc1 w2)))"

text \<open>
  The part of \<open>pop_fetch_message\<close> before the loop: the body cache, then the fallback
  array at \<open>h->index % POP_CACHE_LEN\<close>. The message is found (the function returns),
  or it is not (the loop follows, with an entry for another message removed), or the
  position lies outside the array, which C leaves undefined.
\<close>

datatype cache_lookup = Hit int pop_world | Miss pop_world | Outside

definition cached_message :: "pop_config \<Rightarrow> nat \<Rightarrow> pop_world \<Rightarrow> cache_lookup" where
  "cached_message cfg msgno w =
     (let h = hdrs w ! msgno
      in if data h \<in> set (bcache w) then Hit 0 w
         else if index h < 0 \<or> POP_CACHE_LEN cfg = 0
                 \<or> length (pop_cache w) \<le> nat (index h) mod POP_CACHE_LEN cfg
         then Outside
         else (case pop_cache w ! (nat (index h) mod POP_CACHE_LEN cfg) of
                 None \<Rightarrow> Miss w
               | Some (idx, path) \<Rightarrow>
                   if idx = index h
                   then (if cache_readable w then Hit 0 w
                         else Hit (- 1) (w\<lparr>ui := ui w @ [Perror]\<rparr>))
                   else Miss (w\<lparr>pop_cache :=
                                  (pop_cache w)[nat (index h) mod POP_CACHE_LEN cfg := None]\<rparr>)))"

text \<open>
  \<open>pop_fetch_message(ctx, msg, msgno)\<close>, given the outcomes of the reconnections. The
  result is the return value and the state; \<open>None\<close> when the fallback array is
  accessed outside its bounds.
\<close>

definition pop_fetch_message ::
  "pop_config \<Rightarrow> nat \<Rightarrow> reconnect_outcome list \<Rightarrow> pop_world \<Rightarrow> (int \<times> pop_world) option"
where
  "pop_fetch_message cfg msgno outs w =
     (case cached_message cfg msgno w of
        Hit rc w' \<Rightarrow> Some (rc, w')
      | Outside \<Rightarrow> None
      | Miss w0 \<Rightarrow>
          (case fetch_message_loop cfg msgno outs True w0 of
             (rc, bc, w2) \<Rightarrow>
               if rc < 0 then Some (- 1, w2)
               else
                 (let h = hdrs w2 ! msgno;
                      w3 = (if bc then w2\<lparr>bcache := data h # bcache w2\<rparr>
                            else w2\<lparr>pop_cache :=
                                      (pop_cache w2)[nat (index h) mod POP_CACHE_LEN cfg :=
                                         Some (index h, ''/tmp/neomutt-message'')]\<rparr>);
                      h' = (mutt_read_rfc822_header cfg [] (tmpfile w2) h)\<lparr>data := data h\<rparr>
                  in Some (0, w3\<lparr>hdrs := (hdrs w3)[msgno := h'],
                                  ui := ui w3 @ [Clear_error]\<rparr>))))"

text \<open>Concrete values used to run the driver: a mailbox view with two records, and a configuration.\<close>

definition example_header :: "string \<Rightarrow> int \<Rightarrow> Header" where
  "example_header u n = mutt_new_header\<lparr>data := u, refno := n, index := n - 1\<rparr>"

definition example_world :: pop_world where
  "example_world =
     \<lparr>hdrs = [example_header ''AAA'' 1, example_header ''BBB'' 2], msgcount = 2,
      cmd_uidl = 2, cmd_top = 2, check_time = 0, clear_cache = False, err_msg = [],
      bcache = [], bcache_put_ok = True, pop_cache = [None, None, None, None],
      script = [], sent = [], hcache = [], tmp_open_ok = True, tmp_write_ok = True,
      tmpfile = [], cache_readable = True, ui = []\<rparr>"

definition example_pop_config :: pop_config where
  "example_pop_config =
     \<lparr>USE_HCACHE = True, MarkOld = True, MessageCacheClean = False, PopCheckinterval = 60,
      POP_CACHE_LEN = 4, MUTT_NEW_MAIL = 1,
      mutt_read_rfc822_header = (\<lambda>status file h. h\<lparr>envelope := file\<rparr>),
      pop_open_connection = (\<lambda>w. (0, w))\<rparr>"

text \<open>
  A mailbox whose one record \<open>AAA\<close> the user has marked deleted and whose header
  cache knows the UIDL \<open>BBB\<close>, in front of a server that lists \<open>AAA\<close> under the
  number 1 and \<open>BBB\<close> under the number 0; and the mailbox of two records in front of a
  server that lists only \<open>AAA\<close>.
\<close>

definition example_world_zero :: pop_world where
  "example_world_zero =
     example_world\<lparr>hdrs := [(example_header ''AAA'' 1)\<lparr>deleted := True\<rparr>], msgcount := 1,
       hcache := [(''BBB'', example_header ''BBB'' 7)],
       script := [Rep_ok ''+OK'' [''1 AAA'', ''0 BBB'']]\<rparr>"

definition example_world_lost :: pop_world where
  "example_world_lost = example_world\<lparr>script := [Rep_ok ''+OK'' [''1 AAA'']]\<rparr>"

section \<open>Properties of the transport\<close>

lemma readchar_consumed:
  "mutt_socket_readchar conn = (r, conn') \<Longrightarrow>
     consumed conn' = (case r of None \<Rightarrow> consumed conn | Some _ \<Rightarrow> Suc (consumed conn))"
  by (auto simp: mutt_socket_readchar_def take_char_def conn_read_def mutt_socket_close_def Let_def
           split: if_splits list.splits read_result.splits prod.splits)

lemma readln_loop_safe:
  "i \<le> bound \<Longrightarrow> bound < length buf \<Longrightarrow> loop_ok bound i buf conn (readln_loop bound i buf conn)"
proof (induction bound i buf conn rule: readln_loop.induct)
  case (1 bound i buf conn)
  show ?case
  proof (cases "i < bound")
    case False
    with "1.prems" show ?thesis by (simp add: loop_ok_def readln_loop.simps)
  next
    case True
    obtain r conn' where rc: "mutt_socket_readchar conn = (r, conn')"
      by (cases "mutt_socket_readchar conn")
    note cons = readchar_consumed [OF rc]
    show ?thesis
    proof (cases r)
      case None
      with True rc cons "1.prems" show ?thesis
        by (simp add: poke_def loop_ok_def readln_loop.simps)
    next
      case (Some ch)
      show ?thesis
      proof (cases "ch = CHR 0x0A")
        case True
        with \<open>i < bound\<close> rc cons Some "1.prems" show ?thesis
          by (simp add: loop_ok_def readln_loop.simps)
      next
        case False
        have pk: "poke buf i ch = Some (buf[i := ch])"
          using \<open>i < bound\<close> "1.prems" by (simp add: poke_def)
        have ih: "loop_ok bound (Suc i) (buf[i := ch]) conn'
                    (readln_loop bound (Suc i) (buf[i := ch]) conn')"
          using "1.IH" [OF \<open>i < bound\<close> rc [symmetric] Some False pk] \<open>i < bound\<close> "1.prems"
          by simp
        have eq: "readln_loop bound i buf conn = readln_loop bound (Suc i) (buf[i := ch]) conn'"
          using \<open>i < bound\<close> rc Some False pk by (simp add: readln_loop.simps)
        show ?thesis
          using ih cons Some unfolding eq loop_ok_def
          by (auto split: option.splits)
      qed
    qed
  qed
qed

text \<open>
  Claim C8. The documentation of \<open>mutt_socket_readln_d\<close> promises the number of
  bytes read as the return value of a successful call. On the line \<open>ab\r\n\<close>, read
  into a buffer of 8 cells, the stored line is \<open>ab\<close> with its terminator stripped
  and a null byte after it, four bytes have been taken from the connection, and the
  value returned is 3: the carriage return that was consumed is not counted.
\<close>

theorem readln_crlf_returns_one_less:
  "map_option (\<lambda>(rc, b, c). (rc, b, consumed c))
     (mutt_socket_readln_d ''xxxxxxxx'' 8
        (fresh_conn [Bytes [CHR ''a'', CHR ''b'', CHR 0x0D, CHR 0x0A]]))
   = Some (3, [CHR ''a'', CHR ''b'', CHR 0x00, CHR ''x'', CHR ''x'', CHR ''x'', CHR ''x'', CHR ''x''], 4)"
  by (simp add: mutt_socket_readln_d_def readln_loop.simps mutt_socket_readchar_def
        take_char_def conn_read_def fresh_conn_def size_pred_def poke_def Let_def)

text \<open>
  Claim C10. For a buffer of \<open>buflen\<close> cells with \<open>1 \<le> buflen\<close>, whatever the
  connection delivers (data, a close, a failure, a line longer than the buffer),
  \<open>mutt_socket_readln_d\<close> returns with every store inside the buffer, the buffer
  keeps its \<open>buflen\<close> cells and holds a null byte, the value returned is at most
  \<open>buflen\<close>, and at most \<open>buflen - 1\<close> bytes have been taken from the connection.
  The loop counter is a C \<open>int\<close>, so the statement is made for capacities up to
  \<open>2 ^ 31\<close>, where the counter cannot overflow.
\<close>

theorem readln_buffer_safe:
  assumes "length buf = buflen" and "1 \<le> buflen" and "buflen \<le> 2 ^ 31"
  shows "\<exists>rc buf' conn'.
           mutt_socket_readln_d buf buflen conn = Some (rc, buf', conn')
           \<and> length buf' = buflen \<and> CHR 0x00 \<in> set buf' \<and> rc \<le> int buflen
           \<and> consumed conn' \<le> consumed conn + (buflen - 1)"
proof -
  have b: "size_pred buflen = buflen - 1" "buflen - 1 < length buf"
    using assms by (simp_all add: size_pred_def)
  have "loop_ok (buflen - 1) 0 buf conn (readln_loop (buflen - 1) 0 buf conn)"
    using b by (intro readln_loop_safe) simp_all
  then obtain ok j bb c where
    r: "readln_loop (size_pred buflen) 0 buf conn = Some (ok, j, bb, c)"
    and p: "length bb = length buf" "j \<le> buflen - 1" "\<not> ok \<longrightarrow> bb ! j = CHR 0x00"
       "consumed c \<le> consumed conn + (buflen - 1)"
    unfolding b(1) by (auto simp: loop_ok_def split: option.splits)
  show ?thesis
  proof (cases ok)
    case False
    have "bb ! j \<in> set bb" using p b by (intro nth_mem) simp
    then have z: "CHR 0x00 \<in> set bb" using False p by simp
    have "mutt_socket_readln_d buf buflen conn = Some (- 1, bb, c)"
      using r False by (simp add: mutt_socket_readln_d_def)
    with z p assms show ?thesis by simp
  next
    case True
    define k where "k = (if j \<noteq> 0 \<and> bb ! (j - 1) = CHR 0x0D then j - 1 else j)"
    have k: "k < length bb" "k \<le> j" using p b by (auto simp: k_def)
    have "bb[k := CHR 0x00] ! k \<in> set (bb[k := CHR 0x00])"
      using k by (intro nth_mem) simp
    then have z: "CHR 0x00 \<in> set (bb[k := CHR 0x00])" using k by simp
    have "mutt_socket_readln_d buf buflen conn = Some (int k + 1, bb[k := CHR 0x00], c)"
      using r True k unfolding mutt_socket_readln_d_def k_def by (simp add: poke_def)
    with z p k assms show ?thesis by auto
  qed
qed

theorem readln_buffer_safe_witness:
  "length (replicate 4 (CHR ''x'')) = 4 \<and> (1::nat) \<le> 4 \<and> (4::nat) \<le> 2 ^ 31
   \<and> (\<exists>rc buf' conn'.
         mutt_socket_readln_d (replicate 4 (CHR ''x'')) 4 (fresh_conn [Bytes ''abcdef''])
           = Some (rc, buf', conn')
         \<and> length buf' = 4 \<and> CHR 0x00 \<in> set buf' \<and> rc \<le> int 4
         \<and> consumed conn' \<le> consumed (fresh_conn [Bytes ''abcdef'']) + (4 - 1))"
  using readln_buffer_safe [of "replicate 4 (CHR ''x'')" 4 "fresh_conn [Bytes ''abcdef'']"]
  by simp

section \<open>Properties of host name matching\<close>

lemma strcasecmp_zero: "strcasecmp a b = 0 \<longleftrightarrow> map ascii_lower a = map ascii_lower b"
  by (induction a b rule: strcasecmp.induct) auto

lemma strchr_split:
  "CHR ''.'' \<notin> set X \<Longrightarrow> strchr (X @ CHR ''.'' # r) (CHR ''.'') = Some (CHR ''.'' # r)"
  by (simp add: strchr_def dropWhile_append)

lemma strchr_Some:
  assumes "strchr h c = Some s"
  shows "\<exists>X r. h = X @ c # r \<and> c \<notin> set X \<and> s = c # r"
proof -
  from assms have s: "s = dropWhile (\<lambda>x. x \<noteq> c) h" "s \<noteq> []"
    by (auto simp: strchr_def split: list.splits)
  then have "hd s = c" using hd_dropWhile [of "\<lambda>x. x \<noteq> c" h] by auto
  then obtain r where r: "s = c # r" using s(2) by (cases s) auto
  have "h = takeWhile (\<lambda>x. x \<noteq> c) h @ s" using s by simp
  moreover have "c \<notin> set (takeWhile (\<lambda>x. x \<noteq> c) h)"
    by (auto dest: set_takeWhileD)
  ultimately show ?thesis using r by blast
qed

lemma hostname_match_examples:
  "hostname_match ''foo.example.com'' ''*.example.com''"
  "\<not> hostname_match ''a.b.example.com'' ''*.example.com''"
  "\<not> hostname_match ''example.com'' ''*.example.com''"
  "hostname_match ''FOO.Example.COM'' ''*.eXample.com''"
  by (simp_all add: hostname_match_def strchr_def ascii_lower_def)

text \<open>
  Claim C2 asks for a non-empty first label. The code does not: the host name
  \<open>.example.com\<close>, which is the empty label followed by \<open>.example.com\<close>, is
  accepted against \<open>*.example.com\<close>.
\<close>

theorem hostname_match_empty_label:
  "hostname_match ''.example.com'' ''*.example.com''
   \<and> ''.example.com'' = [] @ ''.'' @ ''example.com''"
  by (simp add: hostname_match_def strchr_def ascii_lower_def)

text \<open>
  Claim C2, as the code has it. Against a certificate name \<open>*.R\<close> the host name
  \<open>h\<close> is accepted if and only if \<open>R\<close> is not empty and \<open>h\<close> is \<open>X.R'\<close> where
  \<open>X\<close> contains no dot (it may be empty) and \<open>R'\<close> equals \<open>R\<close> up to the case of
  ASCII letters. So \<open>*.A.B\<close> accepts \<open>X.A.B\<close> for a dot-free \<open>X\<close> and accepts
  neither \<open>A.B\<close> nor \<open>Y.X.A.B\<close>.
\<close>

theorem hostname_match_wildcard:
  "hostname_match h (''*.'' @ r) \<longleftrightarrow>
     r \<noteq> [] \<and> (\<exists>X r'. h = X @ ''.'' @ r' \<and> CHR ''.'' \<notin> set X
                        \<and> map ascii_lower r' = map ascii_lower r)"
proof
  assume m: "hostname_match h (''*.'' @ r)"
  then obtain s where s: "strchr h (CHR ''.'') = Some s"
    by (auto simp: hostname_match_def split: option.splits)
  from strchr_Some [OF s] obtain X r' where
    x: "h = X @ CHR ''.'' # r'" "CHR ''.'' \<notin> set X" "s = CHR ''.'' # r'" by blast
  from m s x have "r \<noteq> []" "strcasecmp r r' = 0"
    by (auto simp: hostname_match_def split: if_splits)
  then show "r \<noteq> [] \<and> (\<exists>X r'. h = X @ ''.'' @ r' \<and> CHR ''.'' \<notin> set X
                        \<and> map ascii_lower r' = map ascii_lower r)"
    using x by (auto simp: strcasecmp_zero)
next
  assume "r \<noteq> [] \<and> (\<exists>X r'. h = X @ ''.'' @ r' \<and> CHR ''.'' \<notin> set X
                        \<and> map ascii_lower r' = map ascii_lower r)"
  then obtain X r' where
    x: "r \<noteq> []" "h = X @ CHR ''.'' # r'" "CHR ''.'' \<notin> set X"
       "map ascii_lower r' = map ascii_lower r" by auto
  then have "r' \<noteq> []" by auto
  moreover have "strcasecmp r r' = 0" using x by (simp add: strcasecmp_zero)
  ultimately show "hostname_match h (''*.'' @ r)"
    using x strchr_split [OF x(3), of r'] by (simp add: hostname_match_def)
qed

theorem hostname_match_wildcard_witness:
  "hostname_match ''foo.example.com'' (''*.'' @ ''example.com'')"
proof -
  have "''foo.example.com'' = ''foo'' @ ''.'' @ ''example.com'' \<and> CHR ''.'' \<notin> set ''foo''
        \<and> map ascii_lower ''example.com'' = map ascii_lower ''example.com''"
    by simp
  then have "\<exists>X r'. ''foo.example.com'' = X @ ''.'' @ r' \<and> CHR ''.'' \<notin> set X
        \<and> map ascii_lower r' = map ascii_lower ''example.com''"
    by blast
  then show ?thesis
    using hostname_match_wildcard [of "''foo.example.com''" "''example.com''"] by blast
qed

section \<open>Properties of the trust decision\<close>

lemma expiration_silent:
  "fst (check_certificate_expiration cfg now cert True)
     = (SslVerifyDates cfg \<longrightarrow> within_validity now cert)"
  by (auto simp: check_certificate_expiration_def within_validity_def X509_cmp_current_time_def
           split: option.splits)

lemma prompt_always: "has_infix ''(a)ccept always'' (menu_prompt aa sk) = aa"
  by (simp add: menu_prompt_def)

lemma prompt_skip: "has_infix ''(s)kip'' (menu_prompt aa sk) = sk"
  by (simp add: menu_prompt_def)

text \<open>
  Claim C3 ties "accept always" to the validity dates. With \<open>ssl_verify_dates\<close> set
  to no the date check always passes, so the choice is offered for a certificate that
  expired at 1000 when the clock shows 2000.
\<close>

theorem always_offered_for_expired:
  "has_infix ''(a)ccept always''
     (prompt (build_menu example_config_no_dates 2000 example_cert 0 1 True))
   \<and> \<not> within_validity 2000 example_cert"
  by (simp add: build_menu_def allow_always_now_def check_certificate_expiration_def
        example_config_no_dates_def example_config_def example_cert_def within_validity_def
        ALLOW_SKIP_def menu_prompt_def)

text \<open>
  Claim C3, as the code has it. The prompt line of the menu contains "(a)ccept always"
  if and only if the caller allowed it, a trust file is configured, and the date check
  passes: the certificate is within its validity dates, or the verification of dates is
  switched off. It contains "(s)kip" if and only if the build supports partial chains,
  partial-chain acceptance is enabled and the certificate is not at depth 0. A key for a
  choice that is not offered is ignored: the prompt goes on with the next key.
\<close>

theorem prompt_choices:
  "(has_infix ''(a)ccept always'' (prompt (build_menu cfg now cert idx len allow_always))
      \<longleftrightarrow> allow_always \<and> CertificateFile cfg \<noteq> None
           \<and> (SslVerifyDates cfg \<longrightarrow> within_validity now cert))
   \<and> (has_infix ''(s)kip'' (prompt (build_menu cfg now cert idx len allow_always))
      \<longleftrightarrow> HAVE_SSL_PARTIAL_CHAIN cfg \<and> SslVerifyPartialChains cfg \<and> idx \<noteq> 0)
   \<and> (\<not> has_infix ''(a)ccept always''
            (prompt (build_menu cfg (clock env) cert idx len allow_always))
      \<longrightarrow> interactive_check_cert cfg (env\<lparr>typed := Op_accept_always # ks\<rparr>) cert idx len ssl
             allow_always st
          = interactive_check_cert cfg (env\<lparr>typed := ks\<rparr>) cert idx len ssl allow_always st)
   \<and> (\<not> has_infix ''(s)kip'' (prompt (build_menu cfg (clock env) cert idx len allow_always))
      \<longrightarrow> interactive_check_cert cfg (env\<lparr>typed := Op_skip # ks\<rparr>) cert idx len ssl
             allow_always st
          = interactive_check_cert cfg (env\<lparr>typed := ks\<rparr>) cert idx len ssl allow_always st)"
proof -
  have a: "\<And>t. has_infix ''(a)ccept always'' (prompt (build_menu cfg t cert idx len allow_always))
             = allow_always_now cfg t cert allow_always"
    by (simp add: build_menu_def prompt_always)
  have s: "\<And>t. has_infix ''(s)kip'' (prompt (build_menu cfg t cert idx len allow_always))
             = ALLOW_SKIP cfg idx"
    by (simp add: build_menu_def prompt_skip)
  have a': "allow_always_now cfg now cert allow_always
            \<longleftrightarrow> allow_always \<and> CertificateFile cfg \<noteq> None
                 \<and> (SslVerifyDates cfg \<longrightarrow> within_validity now cert)"
    by (simp add: allow_always_now_def expiration_silent)
  have s': "ALLOW_SKIP cfg idx
            \<longleftrightarrow> HAVE_SSL_PARTIAL_CHAIN cfg \<and> SslVerifyPartialChains cfg \<and> idx \<noteq> 0"
    by (auto simp: ALLOW_SKIP_def)
  show ?thesis
    unfolding a s using a' s' by (simp add: interactive_check_cert_def)
qed

theorem prompt_choices_witness:
  "has_infix ''(a)ccept always'' (prompt (build_menu example_config 100 example_cert 0 1 True))
   \<and> SslVerifyDates example_config \<and> within_validity 100 example_cert
   \<and> \<not> has_infix ''(s)kip''
         (prompt (build_menu example_config (clock \<lparr>clock = 100, typed = []\<rparr>) example_cert 0 1 True))
   \<and> interactive_check_cert example_config
        (\<lparr>clock = 100, typed = []\<rparr>\<lparr>typed := Op_skip # [Op_reject]\<rparr>) example_cert 0 1
        example_ssl True example_engine
      = interactive_check_cert example_config
        (\<lparr>clock = 100, typed = []\<rparr>\<lparr>typed := [Op_reject]\<rparr>) example_cert 0 1
        example_ssl True example_engine"
proof -
  have v: "SslVerifyDates example_config" "within_validity 100 example_cert"
    "CertificateFile example_config \<noteq> None" "HAVE_SSL_PARTIAL_CHAIN example_config"
    "SslVerifyPartialChains example_config"
    by (simp_all add: example_config_def example_cert_def within_validity_def)
  show ?thesis
    using v prompt_choices [of example_config 100 example_cert 0 1 True
        "\<lparr>clock = 100, typed = []\<rparr>" "[Op_reject]" example_ssl
        example_engine]
    by simp
qed

lemma cached_match:
  assumes "c \<in> set certs" "subject_name c = subject_name cert" "issuer_name c = issuer_name cert"
    "sha256 c = Some md" "sha256 cert = Some md"
  shows "check_certificate_cache certs cert"
proof -
  have "compare_certificates c cert md"
    using assms by (simp add: compare_certificates_def)
  with assms(1) show ?thesis
    using assms(5) by (auto simp: check_certificate_cache_def list_ex_iff)
qed

lemma ex_data_set:
  "ex_data (SSL_set_ex_data ssl idx p) i = (if 0 \<le> idx \<and> i = idx then p else ex_data ssl i)"
  by (simp add: SSL_set_ex_data_def)

lemma get_set:
  "SSL_get_ex_data (SSL_set_ex_data ssl idx p) i
     = (if 0 \<le> idx \<and> i = idx then p else SSL_get_ex_data ssl i)"
  by (simp add: SSL_get_ex_data_def SSL_set_ex_data_def)

lemma menu_loop_cases:
  "menu_loop aa sk cert ks ssl st = Some (d, ssl', st') \<Longrightarrow>
     HostExDataIndex st' = HostExDataIndex st \<and> SkipModeExDataIndex st' = SkipModeExDataIndex st
     \<and> last_cert st' = last_cert st \<and> last_pos st' = last_pos st
     \<and> menus st' = menus st
     \<and> ((d = 1 \<and> ssl' = ssl \<and> st' = st)
         \<or> (d = 2 \<and> ssl' = SSL_set_ex_data ssl (SkipModeExDataIndex st) None)
         \<or> (d = 2 \<and> sk \<and> ssl' = SSL_set_ex_data ssl (SkipModeExDataIndex st) (Some Skip_marker)
             \<and> st' = st))"
proof (induction ks)
  case Nil
  then show ?case by simp
next
  case (Cons k ks)
  then show ?case
    by (cases k) (auto simp: ssl_cache_trusted_cert_def Let_def split: if_splits)
qed

lemma interactive_cases:
  assumes "interactive_check_cert cfg env cert idx len ssl aa st = Some (rc, ssl', st')"
  shows "HostExDataIndex st' = HostExDataIndex st \<and> SkipModeExDataIndex st' = SkipModeExDataIndex st
     \<and> last_cert st' = last_cert st
     \<and> ((ssl' = ssl \<and> SslSessionCerts st' = SslSessionCerts st)
         \<or> ssl' = SSL_set_ex_data ssl (SkipModeExDataIndex st) None
         \<or> (ALLOW_SKIP cfg idx \<and> ssl' = SSL_set_ex_data ssl (SkipModeExDataIndex st) (Some Skip_marker)
             \<and> SslSessionCerts st' = SslSessionCerts st))"
proof -
  from assms obtain d where
    "menu_loop (allow_always_now cfg (clock env) cert aa) (ALLOW_SKIP cfg idx) cert (typed env) ssl
       (st\<lparr>menus := menus st @ [build_menu cfg (clock env) cert idx len aa]\<rparr>) = Some (d, ssl', st')"
    by (auto simp: interactive_check_cert_def split: option.splits)
  from menu_loop_cases [OF this] show ?thesis by auto
qed

lemma ssl_inv_cleared:
  assumes "ssl_inv cfg n ssl st" "HostExDataIndex st' = HostExDataIndex st"
    "SkipModeExDataIndex st' = SkipModeExDataIndex st"
  shows "ssl_inv cfg n (SSL_set_ex_data ssl (SkipModeExDataIndex st) None) st'"
  using assms by (auto simp: ssl_inv_def skip_mode_def get_set)

lemma ssl_inv_same:
  assumes "ssl_inv cfg n ssl st" "HostExDataIndex st' = HostExDataIndex st"
    "SkipModeExDataIndex st' = SkipModeExDataIndex st" "\<not> skip_mode ssl st"
  shows "ssl_inv cfg n ssl st'"
  using assms by (auto simp: ssl_inv_def skip_mode_def get_set)

lemma interactive_inv:
  assumes i: "interactive_check_cert cfg env cert idx len ssl aa st2 = Some (rc, ssl', st')"
    and h: "ssl_inv cfg n ssl st1"
    and e: "HostExDataIndex st2 = HostExDataIndex st1"
      "SkipModeExDataIndex st2 = SkipModeExDataIndex st1"
    and s: "skip_mode ssl st1 \<or> ALLOW_SKIP cfg idx \<longrightarrow>
              HAVE_SSL_PARTIAL_CHAIN cfg \<and> SslVerifyPartialChains cfg \<and> last_cert st2 = Some cert"
    and n: "\<not> check_certificate_cache (SslSessionCerts st2) cert"
  shows "ssl_inv cfg n ssl' st'"
proof -
  note c = interactive_cases [OF i]
  from c consider
      (same) "ssl' = ssl" "SslSessionCerts st' = SslSessionCerts st2"
    | (clear) "ssl' = SSL_set_ex_data ssl (SkipModeExDataIndex st2) None"
    | (skip) "ALLOW_SKIP cfg idx" "ssl' = SSL_set_ex_data ssl (SkipModeExDataIndex st2) (Some Skip_marker)"
        "SslSessionCerts st' = SslSessionCerts st2"
    by auto
  then show ?thesis
  proof cases
    case same
    with c h e s n show ?thesis by (auto simp: ssl_inv_def skip_mode_def)
  next
    case clear
    with c h e show ?thesis by (auto simp: ssl_inv_def skip_mode_def get_set)
  next
    case skip
    with c h e s n show ?thesis by (auto simp: ssl_inv_def skip_mode_def get_set)
  qed
qed

lemma trust_decision_cases:
  assumes d: "trust_decision cfg env pre ssl host cert pos len st1 = Some (rc, ssl', st')"
    and nc: "\<not> check_certificate_cache (SslSessionCerts st1) cert"
  shows "(\<exists>aa m. interactive_check_cert cfg env cert pos len ssl aa (st1\<lparr>messages := m\<rparr>)
                   = Some (rc, ssl', st'))
      \<or> (\<exists>aa. interactive_check_cert cfg env cert pos len ssl aa st1 = Some (rc, ssl', st'))
      \<or> (\<exists>m. ssl' = SSL_set_ex_data ssl (SkipModeExDataIndex st1) None
               \<and> st' = st1\<lparr>messages := m\<rparr>)
      \<or> (ssl' = ssl \<and> st' = st1 \<and> \<not> skip_mode ssl st1)"
proof (cases "pos = 0 \<and> SslVerifyHost cfg \<and> \<not> fst (check_host cfg cert host)")
  case True
  with d nc show ?thesis by (auto simp: trust_decision_def)
next
  case hostok: False
  show ?thesis
  proof (cases "\<not> pre \<or> skip_mode ssl st1")
    case False
    with d nc hostok show ?thesis by (auto simp: trust_decision_def)
  next
    case True
    show ?thesis
    proof (cases "CertificateFile cfg \<noteq> None")
      case False
      with d nc hostok True show ?thesis by (auto simp: trust_decision_def)
    next
      case cf: True
      obtain ok msgs where dg: "check_certificate_by_digest cfg (clock env) st1 cert = (ok, msgs)"
        by (cases "check_certificate_by_digest cfg (clock env) st1 cert")
      show ?thesis
      proof (cases ok)
        case True
        with d nc hostok \<open>\<not> pre \<or> skip_mode ssl st1\<close> cf dg
        have "ssl' = SSL_set_ex_data ssl (SkipModeExDataIndex st1) None"
          "st' = st1\<lparr>messages := messages st1 @ msgs\<rparr>"
          by (auto simp: trust_decision_def)
        then show ?thesis by blast
      next
        case False
        with d nc hostok \<open>\<not> pre \<or> skip_mode ssl st1\<close> cf dg
        have "interactive_check_cert cfg env cert pos len ssl True
                (st1\<lparr>messages := messages st1 @ msgs\<rparr>) = Some (rc, ssl', st')"
          by (auto simp: trust_decision_def)
        then show ?thesis by blast
      qed
    qed
  qed
qed

lemma decision_inv:
  assumes d: "trust_decision cfg env pre ssl host cert pos len st1 = Some (rc, ssl', st')"
    and h: "ssl_inv cfg n ssl st0"
    and e: "HostExDataIndex st1 = HostExDataIndex st0"
      "SkipModeExDataIndex st1 = SkipModeExDataIndex st0"
    and s: "skip_mode ssl st0 \<or> ALLOW_SKIP cfg pos \<longrightarrow>
              HAVE_SSL_PARTIAL_CHAIN cfg \<and> SslVerifyPartialChains cfg \<and> last_cert st1 = Some cert"
  shows "ssl_inv cfg n ssl' st'"
proof (cases "check_certificate_cache (SslSessionCerts st1) cert")
  case True
  with d have "ssl' = SSL_set_ex_data ssl (SkipModeExDataIndex st0) None" "st' = st1"
    using e by (auto simp: trust_decision_def)
  with ssl_inv_cleared [OF h e] show ?thesis by simp
next
  case nc: False
  have sm: "skip_mode ssl st1 = skip_mode ssl st0" using e by (simp add: skip_mode_def)
  have e2: "\<And>m. HostExDataIndex (st1\<lparr>messages := m\<rparr>) = HostExDataIndex st0"
     "\<And>m. SkipModeExDataIndex (st1\<lparr>messages := m\<rparr>) = SkipModeExDataIndex st0"
    using e by simp_all
  have s2: "\<And>m. skip_mode ssl st0 \<or> ALLOW_SKIP cfg pos \<longrightarrow>
              HAVE_SSL_PARTIAL_CHAIN cfg \<and> SslVerifyPartialChains cfg
              \<and> last_cert (st1\<lparr>messages := m\<rparr>) = Some cert"
    using s by auto
  have n2: "\<And>m. \<not> check_certificate_cache (SslSessionCerts (st1\<lparr>messages := m\<rparr>)) cert"
    using nc by simp
  from trust_decision_cases [OF d nc] consider
      (ia) aa m where
        "interactive_check_cert cfg env cert pos len ssl aa (st1\<lparr>messages := m\<rparr>) = Some (rc, ssl', st')"
    | (ib) aa where "interactive_check_cert cfg env cert pos len ssl aa st1 = Some (rc, ssl', st')"
    | (dg) m where "ssl' = SSL_set_ex_data ssl (SkipModeExDataIndex st1) None"
         "st' = st1\<lparr>messages := m\<rparr>"
    | (ok) "ssl' = ssl" "st' = st1" "\<not> skip_mode ssl st1"
    by blast
  then show ?thesis
  proof cases
    case ia
    from interactive_inv [OF ia h e2 s2 n2] show ?thesis .
  next
    case ib
    from interactive_inv [OF ib h e s nc] show ?thesis .
  next
    case dg
    with ssl_inv_cleared [OF h e2, of m] e show ?thesis by simp
  next
    case ok
    with ssl_inv_same [OF h e] sm show ?thesis by simp
  qed
qed

lemma remember_last_simps:
  "SslSessionCerts (remember_last cfg cert pos st) = SslSessionCerts st"
  "menus (remember_last cfg cert pos st) = menus st"
  "HostExDataIndex (remember_last cfg cert pos st) = HostExDataIndex st"
  "SkipModeExDataIndex (remember_last cfg cert pos st) = SkipModeExDataIndex st"
  "HAVE_SSL_PARTIAL_CHAIN cfg \<and> SslVerifyPartialChains cfg \<Longrightarrow>
     last_cert (remember_last cfg cert pos st) = Some cert"
  by (simp_all add: remember_last_def)

lemma callback_inv:
  assumes inv: "ssl_inv cfg n ssl st"
    and cb: "ssl_verify_callback cfg env pre (Some ssl) cert pos len st = Some (rc, sslo, st')"
  shows "\<exists>ssl'. sslo = Some ssl' \<and> ssl_inv cfg n ssl' st'"
proof -
  from inv obtain host where host: "SSL_get_ex_data ssl (HostExDataIndex st) = Some (Host_name host)"
    by (auto simp: ssl_inv_def)
  show ?thesis
  proof (cases "duplicate_skipped cfg pre ssl cert pos st")
    case True
    with cb host inv show ?thesis by (auto simp: ssl_verify_callback_def)
  next
    case False
    with cb host obtain ssl' where
      d: "trust_decision cfg env pre ssl host cert pos len (remember_last cfg cert pos st)
            = Some (rc, ssl', st')" and o: "sslo = Some ssl'"
      by (auto simp: ssl_verify_callback_def)
    have "skip_mode ssl st \<or> ALLOW_SKIP cfg pos \<longrightarrow>
            HAVE_SSL_PARTIAL_CHAIN cfg \<and> SslVerifyPartialChains cfg
            \<and> last_cert (remember_last cfg cert pos st) = Some cert"
      using inv by (auto simp: ssl_inv_def ALLOW_SKIP_def remember_last_simps)
    from decision_inv [OF d inv remember_last_simps(3) remember_last_simps(4) this] o
    show ?thesis by simp
  qed
qed

lemma decision_frame:
  assumes d: "trust_decision cfg env pre ssl host cert pos len st = Some (rc, ssl', st')"
  shows "HostExDataIndex st' = HostExDataIndex st \<and> SkipModeExDataIndex st' = SkipModeExDataIndex st
         \<and> (ssl' = ssl \<or> (\<exists>p. ssl' = SSL_set_ex_data ssl (SkipModeExDataIndex st) p))"
proof (cases "check_certificate_cache (SslSessionCerts st) cert")
  case True
  with d show ?thesis by (auto simp: trust_decision_def)
next
  case nc: False
  from trust_decision_cases [OF d nc] consider
      (ia) aa m where
        "interactive_check_cert cfg env cert pos len ssl aa (st\<lparr>messages := m\<rparr>) = Some (rc, ssl', st')"
    | (ib) aa where "interactive_check_cert cfg env cert pos len ssl aa st = Some (rc, ssl', st')"
    | (dg) m where "ssl' = SSL_set_ex_data ssl (SkipModeExDataIndex st) None"
         "st' = st\<lparr>messages := m\<rparr>"
    | (ok) "ssl' = ssl" "st' = st" "\<not> skip_mode ssl st"
    by blast
  then show ?thesis
  proof cases
    case ia
    from interactive_cases [OF ia] show ?thesis by auto
  next
    case ib
    from interactive_cases [OF ib] show ?thesis by auto
  next
    case dg
    then show ?thesis by auto
  next
    case ok
    then show ?thesis by simp
  qed
qed

lemma callback_frame:
  assumes "ssl_verify_callback cfg env pre (Some ssl) cert pos len st = Some (rc, sslo, st')"
  shows "HostExDataIndex st' = HostExDataIndex st \<and> SkipModeExDataIndex st' = SkipModeExDataIndex st
         \<and> (sslo = Some ssl \<or> (\<exists>p. sslo = Some (SSL_set_ex_data ssl (SkipModeExDataIndex st) p)))"
proof (cases "SSL_get_ex_data ssl (HostExDataIndex st)")
  case None
  with assms show ?thesis by (simp add: ssl_verify_callback_def)
next
  case (Some p)
  show ?thesis
  proof (cases p)
    case Skip_marker
    with Some assms show ?thesis by (simp add: ssl_verify_callback_def)
  next
    case (Host_name host)
    show ?thesis
    proof (cases "duplicate_skipped cfg pre ssl cert pos st")
      case True
      with Some Host_name assms show ?thesis by (simp add: ssl_verify_callback_def)
    next
      case False
      with Some Host_name assms obtain ssl' where
        d: "trust_decision cfg env pre ssl host cert pos len (remember_last cfg cert pos st)
              = Some (rc, ssl', st')" and o: "sslo = Some ssl'"
        by (auto simp: ssl_verify_callback_def)
      from decision_frame [OF d] o show ?thesis by (simp add: remember_last_simps)
    qed
  qed
qed

lemma callback_no_host:
  "SSL_get_ex_data ssl (HostExDataIndex st) = None \<Longrightarrow>
     ssl_verify_callback cfg env pre (Some ssl) cert pos len st = Some (0, Some ssl, st)"
  by (simp add: ssl_verify_callback_def)

lemma new_index_cases:
  "SSL_get_ex_new_index ok n = (idx, n') \<Longrightarrow>
     (idx = - 1 \<and> n' = n) \<or> (idx = int n \<and> n' = Suc n)"
  by (auto simp: SSL_get_ex_new_index_def split: if_splits)

lemma negotiate_cases:
  assumes "ssl_negotiate_prepare fault host SSL_new n st = (rc, ssl, n', st')"
  shows "(rc = 0 \<and> n' = n + 2
           \<and> HostExDataIndex st' = int n \<and> SkipModeExDataIndex st' = int n + 1
           \<and> ex_data ssl = (\<lambda>idx. if idx = int n then Some (Host_name host) else None)
           \<and> SslSessionCerts st' = SslSessionCerts st \<and> last_cert st' = last_cert st)
       \<or> (rc = - 1 \<and> n \<le> n'
           \<and> (HostExDataIndex st' = - 1 \<or> HostExDataIndex st' = int n))"
  using assms
  by (auto simp: ssl_negotiate_prepare_def SSL_get_ex_new_index_def SSL_set_ex_data_def
        SSL_new_def Let_def fun_eq_iff split: if_splits)

lemma step_inv:
  assumes i: "tls_inv cfg w" and s: "tls_step cfg e w = Some w'"
  shows "tls_inv cfg w'"
proof (cases e)
  case (Negotiate host fault)
  obtain rc ssl n' st' where
    p: "ssl_negotiate_prepare fault host SSL_new (ex_index_count w) (engine w) = (rc, ssl, n', st')"
    by (cases "ssl_negotiate_prepare fault host SSL_new (ex_index_count w) (engine w)") auto
  from i have old: "\<And>k idx. k < length (ssls w) \<Longrightarrow> int (ex_index_count w) \<le> idx
                      \<Longrightarrow> ex_data (ssls w ! k) idx = None"
    by (simp add: tls_inv_def)
  from negotiate_cases [OF p] show ?thesis
  proof
    assume ok: "rc = 0 \<and> n' = ex_index_count w + 2
           \<and> HostExDataIndex st' = int (ex_index_count w)
           \<and> SkipModeExDataIndex st' = int (ex_index_count w) + 1
           \<and> ex_data ssl = (\<lambda>idx. if idx = int (ex_index_count w) then Some (Host_name host) else None)
           \<and> SslSessionCerts st' = SslSessionCerts (engine w) \<and> last_cert st' = last_cert (engine w)"
    with s Negotiate p have w': "w' = \<lparr>ssls = ssls w @ [ssl], ex_index_count = n',
                      latest = Some (length (ssls w)), engine = st'\<rparr>"
      by simp
    have a: "\<forall>k < length (ssls w'). \<forall>idx \<ge> int (ex_index_count w'). ex_data (ssls w' ! k) idx = None"
      using ok old by (auto simp: w' nth_append)
    have b: "\<forall>k < length (ssls w'). latest w' \<noteq> Some k \<longrightarrow>
            SSL_get_ex_data (ssls w' ! k) (HostExDataIndex (engine w')) = None"
      using ok old by (auto simp: w' nth_append SSL_get_ex_data_def)
    have c: "ssl_inv cfg n' ssl st'"
      using ok by (auto simp: ssl_inv_def SSL_get_ex_data_def skip_mode_def)
    from a b c show ?thesis by (simp add: tls_inv_def w')
  next
    assume f: "rc = - 1 \<and> ex_index_count w \<le> n'
           \<and> (HostExDataIndex st' = - 1 \<or> HostExDataIndex st' = int (ex_index_count w))"
    with s Negotiate p have w': "w' = \<lparr>ssls = ssls w, ex_index_count = n', latest = None, engine = st'\<rparr>"
      by simp
    have a: "\<forall>k < length (ssls w'). \<forall>idx \<ge> int (ex_index_count w'). ex_data (ssls w' ! k) idx = None"
      using f old by (auto simp: w')
    have b: "\<forall>k < length (ssls w'). latest w' \<noteq> Some k \<longrightarrow>
            SSL_get_ex_data (ssls w' ! k) (HostExDataIndex (engine w')) = None"
      using f old by (auto simp: w' SSL_get_ex_data_def)
    from a b show ?thesis by (simp add: tls_inv_def w')
  qed
next
  case (Verify k env pre cert pos len)
  from s Verify have k: "k < length (ssls w)" by (simp split: if_splits)
  from s Verify k obtain rc sslo st' where
    c: "ssl_verify_callback cfg env pre (Some (ssls w ! k)) cert pos len (engine w) = Some (rc, sslo, st')"
    by (auto split: option.splits)
  note fr = callback_frame [OF c]
  show ?thesis
  proof (cases "latest w = Some k")
    case False
    with i k have "SSL_get_ex_data (ssls w ! k) (HostExDataIndex (engine w)) = None"
      by (simp add: tls_inv_def)
    from callback_no_host [OF this, of cfg env pre cert pos len] c
    have "sslo = Some (ssls w ! k)" "st' = engine w" by simp_all
    with s Verify k c have "w' = w" by simp
    with i show ?thesis by simp
  next
    case True
    with i have inv: "ssl_inv cfg (ex_index_count w) (ssls w ! k) (engine w)"
      by (simp add: tls_inv_def)
    from callback_inv [OF inv c] obtain ssl' where
      o: "sslo = Some ssl'" and inv': "ssl_inv cfg (ex_index_count w) ssl' st'" by auto
    from s Verify k c o have w': "w' = w\<lparr>ssls := (ssls w)[k := ssl'], engine := st'\<rparr>" by simp
    from fr o have same: "\<And>idx. idx \<noteq> SkipModeExDataIndex (engine w) \<Longrightarrow>
                            ex_data ssl' idx = ex_data (ssls w ! k) idx"
      by (auto simp: ex_data_set)
    from inv have sk: "SkipModeExDataIndex (engine w) < int (ex_index_count w)"
      by (simp add: ssl_inv_def)
    from i have old: "\<And>j idx. j < length (ssls w) \<Longrightarrow> int (ex_index_count w) \<le> idx
                      \<Longrightarrow> ex_data (ssls w ! j) idx = None"
      by (simp add: tls_inv_def)
    from i have others: "\<And>j. j < length (ssls w) \<Longrightarrow> j \<noteq> k \<Longrightarrow>
            SSL_get_ex_data (ssls w ! j) (HostExDataIndex (engine w)) = None"
      using True by (simp add: tls_inv_def)
    have a: "\<forall>j < length (ssls w'). \<forall>idx \<ge> int (ex_index_count w'). ex_data (ssls w' ! j) idx = None"
    proof (intro allI impI)
      fix j idx assume j: "j < length (ssls w')" and idx: "int (ex_index_count w') \<le> idx"
      show "ex_data (ssls w' ! j) idx = None"
      proof (cases "j = k")
        case True
        with j idx sk same [of idx] old [of k idx] k show ?thesis by (simp add: w')
      next
        case False
        with j idx old [of j idx] show ?thesis by (simp add: w')
      qed
    qed
    have b: "\<forall>j < length (ssls w'). latest w' \<noteq> Some j \<longrightarrow>
            SSL_get_ex_data (ssls w' ! j) (HostExDataIndex (engine w')) = None"
      using others True fr by (auto simp: w')
    from a b inv' True k show ?thesis by (simp add: tls_inv_def w')
  qed
qed

lemma run_inv: "tls_inv cfg w \<Longrightarrow> tls_run cfg es w = Some w' \<Longrightarrow> tls_inv cfg w'"
proof (induction es arbitrary: w)
  case Nil
  then show ?case by simp
next
  case (Cons e es)
  then show ?case by (auto split: option.splits dest: step_inv)
qed

lemma cached_not_duplicate:
  assumes inv: "ssl_inv cfg n ssl st"
    and c: "c \<in> set (SslSessionCerts st)" "subject_name c = subject_name cert"
      "issuer_name c = issuer_name cert" "sha256 c = Some md" "sha256 cert = Some md"
  shows "\<not> duplicate_skipped cfg pre ssl cert pos st"
proof
  assume d: "duplicate_skipped cfg pre ssl cert pos st"
  then obtain l lmd where l: "last_cert st = Some l" "sha256 l = Some lmd"
    "compare_certificates cert l lmd" "skip_mode ssl st"
    by (auto simp: duplicate_skipped_def split: option.splits)
  from l(3) c have "subject_name c = subject_name l" "issuer_name c = issuer_name l" "lmd = md"
    by (auto simp: compare_certificates_def split: if_splits)
  with c l have "check_certificate_cache (SslSessionCerts st) l"
    by (intro cached_match [of c]) auto
  with inv l show False by (simp add: ssl_inv_def)
qed

lemmas tls_eval =
  ssl_verify_callback_def trust_decision_def remember_last_def
  duplicate_skipped_def skip_mode_def check_certificate_cache_def compare_certificates_def
  interactive_check_cert_def ssl_cache_trusted_cert_def check_certificate_by_digest_def
  check_certificate_expiration_def check_certificate_file_def X509_cmp_current_time_def
  ssl_negotiate_prepare_def SSL_get_ex_new_index_def SSL_get_ex_data_def SSL_set_ex_data_def
  SSL_new_def tls_start_def

lemma example_host:
  "fst (check_host example_config example_cert ''mail.example.com'')"
  by (simp add: check_host_def example_config_def example_cert_def mutt_str_strlen_def
        hostname_match_def ascii_lower_def)

lemma example_run:
  "tls_run example_config example_events (tls_start 0 example_engine) = Some example_after"
  using example_host
  by (simp add: example_events_def example_after_def tls_eval
        example_engine_def example_config_def example_cert_def fun_eq_iff)

text \<open>
  Claim C1 speaks of every later invocation of the callback. The callback first reads
  the host name from the SSL structure under \<open>HostExDataIndex\<close> and returns 0 when
  there is none, before it looks at the session trust sequence; and \<open>ssl_negotiate\<close>
  assigns a new index to \<open>HostExDataIndex\<close> for every connection. In the run below
  the user accepts the certificate once on a first connection and a second connection
  is negotiated; the certificate is in the trust sequence, and a callback on the SSL
  structure of the first connection returns 0 for it.
\<close>

theorem cached_certificate_rejected_on_earlier:
  "tls_run example_config example_events (tls_start 0 example_engine) = Some example_after
   \<and> example_cert \<in> set (SslSessionCerts (engine example_after))
   \<and> ssl_verify_callback example_config \<lparr>clock = 200, typed = []\<rparr> True
        (Some (ssls example_after ! 0)) example_cert 0 1 (engine example_after)
      = Some (0, Some (ssls example_after ! 0), engine example_after)"
  using example_run
  by (simp add: example_after_def ssl_verify_callback_def SSL_get_ex_data_def
        SSL_set_ex_data_def SSL_new_def)

text \<open>
  Claim C1, as the code has it. Take any sequence of calls of \<open>ssl_negotiate\<close> and of
  callback invocations in a process, and any SSL structure on which the callback is
  registered at its end. Let a certificate \<open>c\<close> be in the session trust sequence (only
  "accept once" and "accept always" put one there) and let the callback be invoked on a
  certificate with the same subject name, the same issuer name and the same SHA-256
  digest. On the structure set up by the most recent call of \<open>ssl_negotiate\<close> the
  callback returns 1, shows no menu, leaves the skip marker of the structure cleared and
  does not change the trust sequence: the skip marker can be set before the call only
  for the certificate remembered by the duplicate test, and that certificate is never
  one of the trust sequence, so the duplicate shortcut, which would keep the marker, is
  not taken. On every other structure, and after a call of \<open>ssl_negotiate\<close> that
  failed before the handshake, the callback returns 0 and changes nothing; so it does
  when the structure cannot be retrieved from the store context.
\<close>

theorem cached_certificate_accepted_on_latest:
  assumes run: "tls_run cfg events (tls_start n st) = Some w"
    and k: "k < length (ssls w)"
    and c: "c \<in> set (SslSessionCerts (engine w))" "subject_name cert = subject_name c"
      "issuer_name cert = issuer_name c" "sha256 cert = sha256 c" "sha256 c \<noteq> None"
  shows "(latest w = Some k \<longrightarrow>
            (\<exists>ssl' st'. ssl_verify_callback cfg env preverify_ok (Some (ssls w ! k)) cert pos len
                           (engine w) = Some (1, Some ssl', st')
                 \<and> \<not> skip_mode ssl' st' \<and> menus st' = menus (engine w)
                 \<and> SslSessionCerts st' = SslSessionCerts (engine w)))
       \<and> (latest w \<noteq> Some k \<longrightarrow>
            ssl_verify_callback cfg env preverify_ok (Some (ssls w ! k)) cert pos len (engine w)
              = Some (0, Some (ssls w ! k), engine w))
       \<and> ssl_verify_callback cfg env preverify_ok None cert pos len (engine w)
           = Some (0, None, engine w)"
proof -
  have "tls_inv cfg (tls_start n st)" by (simp add: tls_inv_def tls_start_def)
  from run_inv [OF this run] have inv: "tls_inv cfg w" .
  have no: "latest w \<noteq> Some k \<longrightarrow>
            ssl_verify_callback cfg env preverify_ok (Some (ssls w ! k)) cert pos len (engine w)
              = Some (0, Some (ssls w ! k), engine w)"
    using inv k by (auto simp: tls_inv_def intro: callback_no_host)
  have yes: "\<exists>ssl' st'. ssl_verify_callback cfg env preverify_ok (Some (ssls w ! k)) cert pos len
                           (engine w) = Some (1, Some ssl', st')
                 \<and> \<not> skip_mode ssl' st' \<and> menus st' = menus (engine w)
                 \<and> SslSessionCerts st' = SslSessionCerts (engine w)" if l: "latest w = Some k"
  proof -
    from inv l have si: "ssl_inv cfg (ex_index_count w) (ssls w ! k) (engine w)"
      by (simp add: tls_inv_def)
    then obtain host where
      host: "SSL_get_ex_data (ssls w ! k) (HostExDataIndex (engine w)) = Some (Host_name host)"
      and sk: "0 \<le> SkipModeExDataIndex (engine w)"
      by (auto simp: ssl_inv_def)
    from c obtain md where md: "sha256 c = Some md" "sha256 cert = Some md" by auto
    have nd: "\<not> duplicate_skipped cfg preverify_ok (ssls w ! k) cert pos (engine w)"
      using cached_not_duplicate [OF si c(1) c(2) [symmetric] c(3) [symmetric] md] .
    have "check_certificate_cache (SslSessionCerts (remember_last cfg cert pos (engine w))) cert"
      using cached_match [OF c(1) c(2) [symmetric] c(3) [symmetric] md]
      by (simp add: remember_last_simps)
    then show ?thesis
      using host nd sk
      by (simp add: ssl_verify_callback_def trust_decision_def remember_last_simps
            skip_mode_def get_set)
  qed
  have none: "ssl_verify_callback cfg env preverify_ok None cert pos len (engine w)
           = Some (0, None, engine w)"
    by (simp add: ssl_verify_callback_def)
  from no yes none show ?thesis by blast
qed

theorem cached_certificate_accepted_on_latest_witness:
  "tls_run example_config example_events (tls_start 0 example_engine) = Some example_after
   \<and> latest example_after = Some 1
   \<and> example_cert \<in> set (SslSessionCerts (engine example_after))
   \<and> sha256 example_cert \<noteq> None
   \<and> (\<exists>ssl' st'.
         ssl_verify_callback example_config \<lparr>clock = 200, typed = []\<rparr> False
           (Some (ssls example_after ! 1)) example_cert 0 1 (engine example_after)
           = Some (1, Some ssl', st')
         \<and> \<not> skip_mode ssl' st' \<and> menus st' = menus (engine example_after)
         \<and> SslSessionCerts st' = SslSessionCerts (engine example_after))
   \<and> ssl_verify_callback example_config \<lparr>clock = 200, typed = []\<rparr> False
        (Some (ssls example_after ! 0)) example_cert 0 1 (engine example_after)
      = Some (0, Some (ssls example_after ! 0), engine example_after)"
proof -
  have l: "latest example_after = Some 1" "length (ssls example_after) = 2"
    and c: "example_cert \<in> set (SslSessionCerts (engine example_after))"
    by (simp_all add: example_after_def)
  have d: "sha256 example_cert \<noteq> None" by (simp add: example_cert_def)
  have k1: "(1::nat) < length (ssls example_after)" and k0: "(0::nat) < length (ssls example_after)"
    using l by simp_all
  note t1 = cached_certificate_accepted_on_latest [OF example_run k1 c refl refl refl d,
      of "\<lparr>clock = 200, typed = []\<rparr>" False 0 1]
  note t0 = cached_certificate_accepted_on_latest [OF example_run k0 c refl refl refl d,
      of "\<lparr>clock = 200, typed = []\<rparr>" False 0 1]
  from t1 t0 l c d example_run show ?thesis by simp
qed

section \<open>Properties of the POP3 driver\<close>

lemma uidl_pos_le: "uidl_pos u hs \<le> length hs"
  by (induction hs) auto

lemma uidl_pos_found: "uidl_pos u hs < length hs \<longleftrightarrow> (\<exists>h\<in>set hs. data h = u)"
  by (induction hs) auto

lemma uidl_pos_data: "uidl_pos u hs < length hs \<Longrightarrow> data (hs ! uidl_pos u hs) = u"
  by (induction hs) auto

lemma uidl_pos_first: "j < uidl_pos u hs \<Longrightarrow> data (hs ! j) \<noteq> u"
proof (induction hs arbitrary: j)
  case Nil
  then show ?case by simp
next
  case (Cons h hs)
  then show ?case by (cases j) (auto split: if_splits)
qed

lemma fetch_uidl_effect:
  assumes wf: "msgcount w \<le> length (hdrs w)"
    and parse: "strtol line = (v, endp, False)"
    and n: "n = to_int32 v"
    and u: "u = dropWhile (\<lambda>c. c = CHR '' '') endp"
    and i: "i = uidl_pos u (take (msgcount w) (hdrs w))"
    and w': "w' = snd (fetch_uidl line w)"
  shows "fst (fetch_uidl line w) = 0
    \<and> ((\<exists>h\<in>set (take (msgcount w) (hdrs w)). data h = u) \<longrightarrow>
          i < msgcount w \<and> data (hdrs w ! i) = u \<and> (\<forall>j<i. data (hdrs w ! j) \<noteq> u)
          \<and> msgcount w' = msgcount w
          \<and> hdrs w' = (hdrs w)[i := (hdrs w ! i)\<lparr>refno := n, index := to_int32 (n - 1)\<rparr>]
          \<and> (index (hdrs w ! i) \<noteq> to_int32 (n - 1) \<longrightarrow> clear_cache w')
          \<and> (index (hdrs w ! i) = to_int32 (n - 1) \<longrightarrow> clear_cache w' = clear_cache w))
    \<and> (\<not> (\<exists>h\<in>set (take (msgcount w) (hdrs w)). data h = u) \<longrightarrow>
          msgcount w' = msgcount w + 1
          \<and> hdrs w' = take (msgcount w) (hdrs w)
                       @ [mutt_new_header\<lparr>data := u, refno := n, index := to_int32 (n - 1)\<rparr>]
          \<and> clear_cache w' = clear_cache w)"
proof -
  let ?view = "take (msgcount w) (hdrs w)"
  have len: "length ?view = msgcount w" using wf by simp
  have r0: "fst (fetch_uidl line w) = 0"
    using parse by (simp add: fetch_uidl_def Let_def)
  show ?thesis
  proof (cases "\<exists>h\<in>set ?view. data h = u")
    case True
    then have lt: "i < msgcount w" using uidl_pos_found [of u ?view] len i by simp
    have d: "data (hdrs w ! i) = u"
      using uidl_pos_data [of u ?view] lt len i by simp
    have f: "\<forall>j<i. data (hdrs w ! j) \<noteq> u"
    proof (intro allI impI)
      fix j assume "j < i"
      then have "data (?view ! j) \<noteq> u" using uidl_pos_first [of j u ?view] i by simp
      then show "data (hdrs w ! j) \<noteq> u" using \<open>j < i\<close> lt by simp
    qed
    have ne: "i \<noteq> msgcount w" using lt by simp
    have "msgcount w' = msgcount w
          \<and> hdrs w' = (hdrs w)[i := (hdrs w ! i)\<lparr>refno := n, index := to_int32 (n - 1)\<rparr>]
          \<and> (index (hdrs w ! i) \<noteq> to_int32 (n - 1) \<longrightarrow> clear_cache w')
          \<and> (index (hdrs w ! i) = to_int32 (n - 1) \<longrightarrow> clear_cache w' = clear_cache w)"
      unfolding w' fetch_uidl_def using parse ne
      by (simp add: Let_def n [symmetric] u [symmetric] i [symmetric])
    with True r0 lt d f show ?thesis by simp
  next
    case False
    then have "\<not> uidl_pos u ?view < length ?view" using uidl_pos_found by blast
    moreover have "uidl_pos u ?view \<le> length ?view" by (rule uidl_pos_le)
    ultimately have "uidl_pos u ?view = length ?view" by linarith
    then have eq: "i = msgcount w" using len i by simp
    have upd: "(?view @ [x])[msgcount w := y] = ?view @ [y]" for x y
      using list_update_length [of ?view x "[]" y] by (simp only: len)
    have "msgcount w' = msgcount w + 1
          \<and> hdrs w' = ?view @ [mutt_new_header\<lparr>data := u, refno := n, index := to_int32 (n - 1)\<rparr>]
          \<and> clear_cache w' = clear_cache w"
      unfolding w' fetch_uidl_def using parse eq len
      by (simp add: Let_def n [symmetric] u [symmetric] i [symmetric] nth_append upd)
    with False r0 show ?thesis by simp
  qed
qed

lemma strtol_range_error:
  assumes "strtol line = (v, endp, True)"
  shows "v = LONG_MAX \<or> v = LONG_MIN"
  using assms
  by (auto simp: strtol_def Let_def split: if_splits prod.splits)

lemma to_int32_in_range:
  assumes "- (2 ^ 31) \<le> v" "v < 2 ^ 31"
  shows "to_int32 v = v"
proof -
  have "(v + 2 ^ 31) mod 2 ^ 32 = v + 2 ^ 31"
    using assms by (intro mod_pos_pos_trivial) simp_all
  then show ?thesis by (simp add: to_int32_def)
qed

lemma example_numbers:
  "strtol ''99999999999999999999 AAA'' = (LONG_MAX, '' AAA'', True)"
  "strtol ''4294967296 AAA'' = (4294967296, '' AAA'', False)"
  "strtol ''1 BBB'' = (1, '' BBB'', False)"
  "strtol ''3 CCC'' = (3, '' CCC'', False)"
  by (simp_all add: strtol_def isspace_def isdigit_def LONG_MAX_def LONG_MIN_def)

text \<open>
  Claim C6 lets every line of the listing set the \<open>refno\<close> of the record with its
  UIDL to the number of the line. \<open>fetch_uidl\<close> reads the number with \<open>strtol\<close>,
  gives up when the number is out of the range of \<open>long\<close>, and stores it in an
  \<open>int\<close>. The view below has the record \<open>AAA\<close> with \<open>refno\<close> 1. The line
  \<open>99999999999999999999 AAA\<close> makes the call return -1 and changes nothing; after
  the line \<open>4294967296 AAA\<close> the \<open>refno\<close> of the record is 0.
\<close>

theorem fetch_uidl_number_out_of_range:
  "data (hdrs example_world ! 0) = ''AAA'' \<and> refno (hdrs example_world ! 0) = 1
   \<and> fetch_uidl ''99999999999999999999 AAA'' example_world = (- 1, example_world)
   \<and> fst (fetch_uidl ''4294967296 AAA'' example_world) = 0
   \<and> refno (hdrs (snd (fetch_uidl ''4294967296 AAA'' example_world)) ! 0) = 0"
  by (simp add: fetch_uidl_def example_numbers to_int32_def Let_def example_world_def
        example_header_def mutt_new_header_def)

text \<open>
  Claim C6, as the code has it. Let \<open>fetch_uidl\<close> be given a line of the UIDL
  listing, with \<open>v\<close> the number that \<open>strtol\<close> reads at its start and \<open>u\<close> its UIDL,
  the rest after the blanks. When \<open>v\<close> is out of the range of \<open>long\<close> the call returns
  -1 and changes nothing. Otherwise the call returns 0 and works with \<open>n\<close>, the number
  \<open>v\<close> converted to \<open>int\<close>; \<open>n\<close> is \<open>v\<close> itself when \<open>v\<close> is in the range of
  \<open>int\<close>, from -2147483648 to 2147483647, and no number in that range is refused. If
  a record of the view has the UIDL \<open>u\<close>, the first such record gets \<open>refno = n\<close>
  and \<open>index = n - 1\<close> (in \<open>int\<close> arithmetic), nothing else in the header sequence
  changes, and
  \<open>clear_cache\<close> is set when the new index differs from the record's previous index
  (and keeps its value otherwise). If no record has the UIDL \<open>u\<close>, a new record
  carrying \<open>u\<close>, with \<open>refno = n\<close>, is appended to the view and \<open>msgcount\<close> grows
  by one.
\<close>

theorem fetch_uidl_line:
  assumes wf: "msgcount w \<le> length (hdrs w)"
    and parse: "strtol line = (v, endp, range_error)"
    and n: "n = to_int32 v"
    and u: "u = dropWhile (\<lambda>c. c = CHR '' '') endp"
    and i: "i = uidl_pos u (take (msgcount w) (hdrs w))"
    and w': "w' = snd (fetch_uidl line w)"
  shows "(range_error \<longrightarrow> fetch_uidl line w = (- 1, w))
    \<and> (- (2 ^ 31) \<le> v \<and> v < 2 ^ 31 \<longrightarrow> n = v \<and> \<not> range_error)
    \<and> (\<not> range_error \<longrightarrow>
         fst (fetch_uidl line w) = 0
         \<and> ((\<exists>h\<in>set (take (msgcount w) (hdrs w)). data h = u) \<longrightarrow>
               i < msgcount w \<and> data (hdrs w ! i) = u \<and> (\<forall>j<i. data (hdrs w ! j) \<noteq> u)
               \<and> msgcount w' = msgcount w
               \<and> hdrs w' = (hdrs w)[i := (hdrs w ! i)\<lparr>refno := n, index := to_int32 (n - 1)\<rparr>]
               \<and> (index (hdrs w ! i) \<noteq> to_int32 (n - 1) \<longrightarrow> clear_cache w')
               \<and> (index (hdrs w ! i) = to_int32 (n - 1) \<longrightarrow> clear_cache w' = clear_cache w))
         \<and> (\<not> (\<exists>h\<in>set (take (msgcount w) (hdrs w)). data h = u) \<longrightarrow>
               msgcount w' = msgcount w + 1
               \<and> hdrs w' = take (msgcount w) (hdrs w)
                            @ [mutt_new_header\<lparr>data := u, refno := n, index := to_int32 (n - 1)\<rparr>]
               \<and> clear_cache w' = clear_cache w))"
proof -
  have a: "range_error \<longrightarrow> fetch_uidl line w = (- 1, w)"
    using parse by (simp add: fetch_uidl_def)
  have b: "- (2 ^ 31) \<le> v \<and> v < 2 ^ 31 \<longrightarrow> n = v \<and> \<not> range_error"
  proof (intro impI conjI)
    assume r: "- (2 ^ 31) \<le> v \<and> v < 2 ^ 31"
    then show "n = v" using n to_int32_in_range by simp
    show "\<not> range_error"
    proof
      assume range_error
      with parse have "v = LONG_MAX \<or> v = LONG_MIN" using strtol_range_error by simp
      with r show False by (auto simp: LONG_MAX_def LONG_MIN_def)
    qed
  qed
  show ?thesis
  proof (cases range_error)
    case True
    with a b show ?thesis by simp
  next
    case False
    with parse have p: "strtol line = (v, endp, False)" by simp
    from fetch_uidl_effect [OF wf p n u i w'] a b False show ?thesis by simp
  qed
qed

theorem fetch_uidl_line_witness:
  "msgcount example_world \<le> length (hdrs example_world)
   \<and> strtol ''1 BBB'' = (1, '' BBB'', False)
   \<and> (\<exists>h\<in>set (take (msgcount example_world) (hdrs example_world)). data h = ''BBB'')
   \<and> fst (fetch_uidl ''1 BBB'' example_world) = 0
   \<and> msgcount (snd (fetch_uidl ''1 BBB'' example_world)) = 2
   \<and> refno (hdrs (snd (fetch_uidl ''1 BBB'' example_world)) ! 1) = 1
   \<and> index (hdrs (snd (fetch_uidl ''1 BBB'' example_world)) ! 1) = 0
   \<and> index (hdrs example_world ! 1) = 1
   \<and> clear_cache (snd (fetch_uidl ''1 BBB'' example_world))
   \<and> strtol ''3 CCC'' = (3, '' CCC'', False)
   \<and> (\<exists>h\<in>set (take (msgcount example_world) (hdrs example_world)). data h = ''CCC'') = False
   \<and> msgcount (snd (fetch_uidl ''3 CCC'' example_world)) = 3
   \<and> data (hdrs (snd (fetch_uidl ''3 CCC'' example_world)) ! 2) = ''CCC''
   \<and> refno (hdrs (snd (fetch_uidl ''3 CCC'' example_world)) ! 2) = 3
   \<and> strtol ''99999999999999999999 AAA'' = (LONG_MAX, '' AAA'', True)
   \<and> fetch_uidl ''99999999999999999999 AAA'' example_world = (- 1, example_world)"
proof -
  have wf: "msgcount example_world \<le> length (hdrs example_world)"
    by (simp add: example_world_def)
  note p1 = example_numbers(3) and p2 = example_numbers(4) and p3 = example_numbers(1)
  have v: "take (msgcount example_world) (hdrs example_world)
             = [example_header ''AAA'' 1, example_header ''BBB'' 2]"
    by (simp add: example_world_def)
  have i1: "uidl_pos ''BBB'' (take (msgcount example_world) (hdrs example_world)) = 1"
    and i2: "(\<exists>h\<in>set (take (msgcount example_world) (hdrs example_world)). data h = ''CCC'') = False"
    and e1: "\<exists>h\<in>set (take (msgcount example_world) (hdrs example_world)). data h = ''BBB''"
    unfolding v by (simp_all add: example_header_def mutt_new_header_def)
  have old: "index (hdrs example_world ! 1) = 1" "msgcount example_world = 2"
    by (simp_all add: example_world_def example_header_def mutt_new_header_def)
  note a = fetch_uidl_line [OF wf p1 refl refl refl refl]
  note b = fetch_uidl_line [OF wf p2 refl refl refl refl]
  note c = fetch_uidl_line [OF wf p3 refl refl refl refl]
  show ?thesis
    using a b c wf p1 p2 p3 e1 i1 i2 old
    by (simp add: to_int32_def nth_append)
qed

section \<open>What a call of pop_fetch_headers does to the session\<close>

lemma same_session_refl [simp]: "same_session w w"
  by (simp add: same_session_def)

lemma same_session_trans: "same_session a b \<Longrightarrow> same_session b c \<Longrightarrow> same_session a c"
  by (simp add: same_session_def)

lemma feed_lines_session:
  assumes "\<And>l w. same_session w (snd (cb l w))"
  shows "same_session w (snd (feed_lines cb ls r w))"
proof (induction ls arbitrary: r w)
  case Nil
  show ?case by simp
next
  case (Cons l ls)
  show ?case
  proof (cases "r = 0")
    case True
    obtain q w1 where c: "cb l w = (q, w1)" by (cases "cb l w")
    have "same_session w w1" using assms [of w l] c by simp
    moreover have "same_session w1 (snd (feed_lines cb ls (if q \<noteq> 0 then - 3 else 0) w1))"
      by (rule Cons.IH)
    ultimately show ?thesis using True c by (auto intro: same_session_trans)
  next
    case False
    then show ?thesis using Cons.IH by simp
  qed
qed

lemma fetch_uidl_session: "same_session w (snd (fetch_uidl l w))"
  by (simp add: fetch_uidl_def same_session_def Let_def split: prod.splits)

lemma fetch_message_session: "same_session w (snd (fetch_message l w))"
  by (simp add: fetch_message_def same_session_def)

lemma pop_fetch_data_session:
  assumes "\<And>l w. same_session w (snd (cb l w))"
  shows "same_session w (snd (pop_fetch_data cmd cb w))"
proof -
  have "\<And>ls r x y. same_session w (snd (feed_lines cb ls r (w\<lparr>sent := x, script := y\<rparr>)))"
    using feed_lines_session [OF assms] by (auto simp: same_session_def)
  then show ?thesis
    by (auto simp: pop_fetch_data_def Let_def same_session_def split: list.splits reply.splits)
qed

lemma pop_query_session: "same_session w (snd (snd (pop_query cmd w)))"
  by (auto simp: pop_query_def Let_def same_session_def split: list.splits reply.splits)

lemma note_top_session: "same_session w (note_top_capability rc w)"
  by (simp add: note_top_capability_def same_session_def)

lemma pop_read_header_session: "same_session w (snd (snd (pop_read_header cfg h w)))"
proof (cases "tmp_open_ok w")
  case False
  then show ?thesis by (simp add: pop_read_header_def same_session_def)
next
  case True
  obtain rc0 buf w1 where q: "pop_query (LIST (refno h)) (w\<lparr>tmpfile := []\<rparr>) = (rc0, buf, w1)"
    by (cases "pop_query (LIST (refno h)) (w\<lparr>tmpfile := []\<rparr>)")
  have s1: "same_session w w1"
    using pop_query_session [of "w\<lparr>tmpfile := []\<rparr>" "LIST (refno h)"] q
    by (simp add: same_session_def)
  obtain rc1 wa where f: "pop_fetch_data (TOP (refno h)) fetch_message w1 = (rc1, wa)"
    by (cases "pop_fetch_data (TOP (refno h)) fetch_message w1")
  have s2: "same_session w1 wa"
    using pop_fetch_data_session [of fetch_message w1 "TOP (refno h)"] fetch_message_session f
    by simp
  have s3: "same_session w (note_top_capability rc1 wa)"
    using s1 s2 note_top_session [of wa rc1] by (auto intro: same_session_trans)
  show ?thesis
    using True q f s1 s3
    by (auto simp: pop_read_header_def same_session_def)
qed

lemma new_header_step_session:
  "same_session w (snd (snd (new_header_step cfg i hcached w)))"
proof -
  obtain ret h1 w1 where r: "pop_read_header cfg (hdrs w ! i) w = (ret, h1, w1)"
    by (cases "pop_read_header cfg (hdrs w ! i) w")
  have "same_session w w1" using pop_read_header_session [of w cfg "hdrs w ! i"] r by simp
  then show ?thesis
    using r by (auto simp: new_header_step_def Let_def same_session_def split: option.splits)
qed

lemma new_headers_loop_session:
  "same_session w (snd (new_headers_loop cfg i new_count hcached w))"
proof (induction cfg i new_count hcached w rule: new_headers_loop.induct)
  case (1 cfg i new_count hcached w)
  show ?case
  proof (cases "i < new_count")
    case False
    then show ?thesis by (simp add: new_headers_loop.simps)
  next
    case True
    obtain ret hc' w' where st: "new_header_step cfg i hcached w = (ret, hc', w')"
      by (cases "new_header_step cfg i hcached w")
    have s1: "same_session w w'" using new_header_step_session [of w cfg i hcached] st by simp
    show ?thesis
    proof (cases "ret < 0")
      case neg: True
      with True st s1 show ?thesis by (simp add: new_headers_loop.simps)
    next
      case False
      from "1.IH" [OF True st [symmetric] refl False]
      have "same_session w' (snd (new_headers_loop cfg (Suc i) new_count hc' w'))" .
      with s1 True st False show ?thesis
        by (subst new_headers_loop.simps) (auto intro: same_session_trans)
    qed
  qed
qed

lemma mark_lost_session: "same_session w (mark_lost n w)"
  by (simp add: mark_lost_def same_session_def Let_def)

lemma enumerate_session:
  "enumerate_uidls now w = (ret, nc, w4) \<Longrightarrow> check_time w4 = now \<and> cmd_uidl w4 = cmd_uidl w"
proof -
  assume e: "enumerate_uidls now w = (ret, nc, w4)"
  let ?w2 = "forget_refnos (w\<lparr>check_time := now, clear_cache := False\<rparr>)"
  have "same_session ?w2 (snd (pop_fetch_data UIDL fetch_uidl ?w2))"
    by (rule pop_fetch_data_session) (rule fetch_uidl_session)
  with e show ?thesis
    by (auto simp: enumerate_uidls_def same_session_def forget_refnos_def split: prod.splits)
qed

lemma fetch_uidl_ret: "fst (fetch_uidl l w) = (if snd (snd (strtol l)) then - 1 else 0)"
  by (simp add: fetch_uidl_def Let_def split_beta)

lemma feed_uidl_ret:
  "fst (feed_lines fetch_uidl ls r w)
     = (if r = 0 \<and> (\<exists>l\<in>set ls. snd (snd (strtol l))) then - 3 else r)"
proof (induction ls arbitrary: r w)
  case Nil
  show ?case by simp
next
  case (Cons l ls)
  show ?case
  proof (cases "r = 0")
    case False
    then show ?thesis using Cons.IH [of r w] by simp
  next
    case True
    obtain q w1 where c: "fetch_uidl l w = (q, w1)" by (cases "fetch_uidl l w")
    have q: "q = (if snd (snd (strtol l)) then - 1 else 0)"
      using fetch_uidl_ret [of l w] c by simp
    show ?thesis
    proof (cases "snd (snd (strtol l))")
      case True
      with q have "q = - 1" by simp
      with \<open>r = 0\<close> c True show ?thesis using Cons.IH [of "- 3" w1] by simp
    next
      case False
      with q have "q = 0" by simp
      with \<open>r = 0\<close> c False show ?thesis using Cons.IH [of 0 w1] by simp
    qed
  qed
qed


lemma pop_fetch_data_uidl_ret:
  "fst (pop_fetch_data UIDL fetch_uidl w)
     = (case script w of
          [] \<Rightarrow> - 1
        | Rep_ok s ls # rest \<Rightarrow> if \<exists>l\<in>set ls. snd (snd (strtol l)) then - 3 else 0
        | Rep_cut s ls # rest \<Rightarrow> - 1
        | Rep_err e # rest \<Rightarrow> - 2
        | Rep_lost # rest \<Rightarrow> - 1)"
proof (cases "script w")
  case Nil
  then show ?thesis by (simp add: pop_fetch_data_def)
next
  case (Cons r rest)
  then show ?thesis
    by (cases r) (simp_all add: pop_fetch_data_def feed_uidl_ret)
qed

lemma enumerate_ret:
  "fst (enumerate_uidls now w)
     = (case script w of
          [] \<Rightarrow> - 1
        | Rep_ok s ls # rest \<Rightarrow> if \<exists>l\<in>set ls. snd (snd (strtol l)) then - 3 else 0
        | Rep_cut s ls # rest \<Rightarrow> - 1
        | Rep_err e # rest \<Rightarrow> - 2
        | Rep_lost # rest \<Rightarrow> - 1)"
proof -
  let ?w2 = "forget_refnos (w\<lparr>check_time := now, clear_cache := False\<rparr>)"
  have a: "fst (enumerate_uidls now w) = fst (pop_fetch_data UIDL fetch_uidl ?w2)"
    by (simp add: enumerate_uidls_def split_beta)
  have b: "script ?w2 = script w" by (simp add: forget_refnos_def)
  show ?thesis unfolding a pop_fetch_data_uidl_ret b ..
qed

lemma enumerate_ret_range: "fst (enumerate_uidls now w) \<le> 0"
proof (cases "script w")
  case Nil
  then show ?thesis by (simp add: enumerate_ret)
next
  case (Cons r rest)
  then show ?thesis by (cases r) (simp_all add: enumerate_ret)
qed

lemma new_headers_loop_ret: "fst (new_headers_loop cfg i new_count hcached w) \<le> 0"
proof (induction cfg i new_count hcached w rule: new_headers_loop.induct)
  case (1 cfg i new_count hcached w)
  show ?case
  proof (cases "i < new_count")
    case False
    then show ?thesis by (simp add: new_headers_loop.simps)
  next
    case True
    obtain ret hc' w' where st: "new_header_step cfg i hcached w = (ret, hc', w')"
      by (cases "new_header_step cfg i hcached w")
    show ?thesis
    proof (cases "ret < 0")
      case neg: True
      with True st show ?thesis by (simp add: new_headers_loop.simps)
    next
      case False
      from "1.IH" [OF True st [symmetric] refl False] True st False
      show ?thesis by (subst new_headers_loop.simps) simp
    qed
  qed
qed

lemma sweep_session: "same_session w (sweep_bcache cfg w)"
  by (simp add: sweep_bcache_def same_session_def)

lemma pop_fetch_headers_unfold:
  assumes e: "enumerate_uidls now w = (ret0, nc, w4)"
    and l: "(if ret0 = 0
             then new_headers_loop cfg (msgcount w) nc False
                    (mark_lost (msgcount w) (note_uidl_capability ret0 w4))
             else (ret0, note_uidl_capability ret0 w4)) = (r7, w7)"
  shows "pop_fetch_headers cfg now w
     = (if r7 < 0 then (r7, w7\<lparr>hdrs := take (msgcount w7) (hdrs w7)\<rparr>)
        else (int nc - int (msgcount w),
              (if MessageCacheClean cfg then sweep_bcache cfg w7 else w7)
                \<lparr>ui := ui (if MessageCacheClean cfg then sweep_bcache cfg w7 else w7)
                        @ [Clear_error]\<rparr>))"
  by (simp only: pop_fetch_headers_def e Let_def l prod.case)


lemma fetch_headers_session:
  assumes e: "enumerate_uidls now w = (ret0, nc, w4)"
    and r: "pop_fetch_headers cfg now w = (ret, w')"
  shows "check_time w' = now \<and> cmd_uidl w' = cmd_uidl (note_uidl_capability ret0 w4)
         \<and> (ret0 \<noteq> 0 \<longrightarrow> ret = ret0 \<and> err_msg w' = err_msg (note_uidl_capability ret0 w4))"
proof -
  let ?w5 = "note_uidl_capability ret0 w4"
  have c5: "check_time ?w5 = now"
    using enumerate_session [OF e] by (simp add: note_uidl_capability_def)
  have neg: "ret0 \<noteq> 0 \<Longrightarrow> ret0 < 0"
    using enumerate_ret_range [of now w] e by simp
  show ?thesis
  proof (cases "ret0 = 0")
    case False
    then have l: "(if ret0 = 0
             then new_headers_loop cfg (msgcount w) nc False (mark_lost (msgcount w) ?w5)
             else (ret0, ?w5)) = (ret0, ?w5)" by simp
    from pop_fetch_headers_unfold [OF e l] neg [OF False] r
    have "ret = ret0" "w' = ?w5\<lparr>hdrs := take (msgcount ?w5) (hdrs ?w5)\<rparr>" by simp_all
    with c5 show ?thesis by simp
  next
    case True
    obtain r7 w7 where l0: "new_headers_loop cfg (msgcount w) nc False (mark_lost (msgcount w) ?w5)
                             = (r7, w7)"
      by (cases "new_headers_loop cfg (msgcount w) nc False (mark_lost (msgcount w) ?w5)")
    with True have l: "(if ret0 = 0
             then new_headers_loop cfg (msgcount w) nc False (mark_lost (msgcount w) ?w5)
             else (ret0, ?w5)) = (r7, w7)" by simp
    have "same_session (mark_lost (msgcount w) ?w5) w7"
      using new_headers_loop_session [of "mark_lost (msgcount w) ?w5" cfg "msgcount w" nc False] l0
      by simp
    with mark_lost_session [of ?w5 "msgcount w"] have s: "same_session ?w5 w7"
      by (auto intro: same_session_trans)
    have "check_time w' = check_time w7 \<and> cmd_uidl w' = cmd_uidl w7"
    proof (cases "r7 < 0")
      case True
      with pop_fetch_headers_unfold [OF e l] r show ?thesis by auto
    next
      case False
      with pop_fetch_headers_unfold [OF e l] r sweep_session [of w7 cfg] show ?thesis
        by (auto simp: same_session_def)
    qed
    with s c5 True show ?thesis by (simp add: same_session_def)
  qed
qed

lemma check_time_after: "check_time (snd (pop_fetch_headers cfg now w)) = now"
proof -
  obtain ret0 nc w4 where e: "enumerate_uidls now w = (ret0, nc, w4)"
    by (cases "enumerate_uidls now w")
  obtain ret w' where r: "pop_fetch_headers cfg now w = (ret, w')"
    by (cases "pop_fetch_headers cfg now w")
  from fetch_headers_session [OF e r] r show ?thesis by simp
qed

lemma check_suppressed:
  "t < check_time w + PopCheckinterval cfg \<Longrightarrow> pop_check_mailbox cfg t w = (0, w)"
  by (simp add: pop_check_mailbox_def)

lemma uidl_capability_after:
  assumes r: "pop_fetch_headers cfg now w = (ret, w')"
  shows "cmd_uidl w' = (if cmd_uidl w = 2
                        then (if fst (enumerate_uidls now w) = 0 then 1
                              else if fst (enumerate_uidls now w) = - 2 then 0 else 2)
                        else cmd_uidl w)"
    and "cmd_uidl w = 2 \<Longrightarrow> fst (enumerate_uidls now w) = - 2 \<Longrightarrow>
           ret = - 2 \<and> err_msg w' = ''Command UIDL is not supported by server.''"
proof -
  obtain ret0 nc w4 where e: "enumerate_uidls now w = (ret0, nc, w4)"
    by (cases "enumerate_uidls now w")
  note s = fetch_headers_session [OF e r]
  note k = enumerate_session [OF e]
  show "cmd_uidl w' = (if cmd_uidl w = 2
                        then (if fst (enumerate_uidls now w) = 0 then 1
                              else if fst (enumerate_uidls now w) = - 2 then 0 else 2)
                        else cmd_uidl w)"
    using s k e by (simp add: note_uidl_capability_def)
  show "cmd_uidl w = 2 \<Longrightarrow> fst (enumerate_uidls now w) = - 2 \<Longrightarrow>
           ret = - 2 \<and> err_msg w' = ''Command UIDL is not supported by server.''"
    using s k e by (simp add: note_uidl_capability_def)
qed


lemma uidl_capability_kept:
  "cmd_uidl w \<noteq> 2 \<Longrightarrow> cmd_uidl (fetch_headers_many cfg ts w) = cmd_uidl w"
proof (induction ts arbitrary: w)
  case Nil
  show ?case by simp
next
  case (Cons t ts)
  have "cmd_uidl (snd (pop_fetch_headers cfg t w)) = cmd_uidl w"
    using uidl_capability_after(1) [of cfg t w "fst (pop_fetch_headers cfg t w)"
        "snd (pop_fetch_headers cfg t w)"] Cons.prems by simp
  with Cons show ?case by simp
qed

lemma strtol_out_of_range:
  "strtol ''99999999999999999999 X'' = (LONG_MAX, '' X'', True)"
  by (simp add: strtol_def isspace_def isdigit_def LONG_MAX_def LONG_MIN_def)

text \<open>
  Claim C7 lets the first \<open>+OK\<close> reply to UIDL set the capability to Present. The
  code sets it when the whole command has succeeded. A \<open>+OK\<close> reply whose listing
  holds a line with a number out of the range of \<open>long\<close> makes \<open>fetch_uidl\<close>
  fail, the command returns -3, and the capability is still Unknown (2) afterwards.
\<close>

theorem uidl_ok_reply_stays_unknown:
  "cmd_uidl example_world = 2
   \<and> cmd_uidl (snd (pop_fetch_headers example_pop_config 100
        (example_world\<lparr>script := [Rep_ok ''+OK'' [''99999999999999999999 X'']]\<rparr>))) = 2"
proof -
  let ?w = "example_world\<lparr>script := [Rep_ok ''+OK'' [''99999999999999999999 X'']]\<rparr>"
  have u: "cmd_uidl ?w = 2" "cmd_uidl example_world = 2" by (simp_all add: example_world_def)
  have e: "fst (enumerate_uidls 100 ?w) = - 3"
    by (simp add: enumerate_ret strtol_out_of_range)
  from uidl_capability_after(1) [of example_pop_config 100 ?w
      "fst (pop_fetch_headers example_pop_config 100 ?w)"
      "snd (pop_fetch_headers example_pop_config 100 ?w)"] u e
  show ?thesis by simp
qed

text \<open>
  Claim C7, as the code has it. The value \<open>ret\<close> of the UIDL command is the first
  component of \<open>enumerate_uidls\<close>; it is 0 exactly for a \<open>+OK\<close> reply whose listing
  arrives in full and whose every line is read without a range error, and -2 exactly
  for an \<open>-ERR\<close> reply. A capability that is Present (1) or Absent (0) is left alone
  by this call and by any number of later calls. A capability that is Unknown (2)
  becomes Present when the command succeeds; it becomes Absent on \<open>-ERR\<close>, and then
  the call fails with -2 and \<open>err_msg\<close> holds the note that UIDL is not supported;
  after any other outcome it is still Unknown.
\<close>

theorem uidl_capability_transitions:
  assumes "pop_fetch_headers cfg now w = (ret, w')"
  shows "(cmd_uidl w \<noteq> 2 \<longrightarrow>
            cmd_uidl w' = cmd_uidl w
            \<and> (\<forall>ts. cmd_uidl (fetch_headers_many cfg ts w) = cmd_uidl w))
    \<and> (cmd_uidl w = 2 \<longrightarrow>
          (fst (enumerate_uidls now w) = 0 \<longrightarrow> cmd_uidl w' = 1)
        \<and> (fst (enumerate_uidls now w) = - 2 \<longrightarrow>
              cmd_uidl w' = 0 \<and> ret = - 2
              \<and> err_msg w' = ''Command UIDL is not supported by server.'')
        \<and> (fst (enumerate_uidls now w) \<noteq> 0 \<and> fst (enumerate_uidls now w) \<noteq> - 2 \<longrightarrow>
              cmd_uidl w' = 2))
    \<and> (fst (enumerate_uidls now w) = 0 \<longleftrightarrow>
          (\<exists>s ls rest. script w = Rep_ok s ls # rest \<and> (\<forall>l\<in>set ls. \<not> snd (snd (strtol l)))))
    \<and> (fst (enumerate_uidls now w) = - 2 \<longleftrightarrow> (\<exists>e rest. script w = Rep_err e # rest))"
proof -
  note a = uidl_capability_after [OF assms]
  have ok: "fst (enumerate_uidls now w) = 0 \<longleftrightarrow>
          (\<exists>s ls rest. script w = Rep_ok s ls # rest \<and> (\<forall>l\<in>set ls. \<not> snd (snd (strtol l))))"
  proof (cases "script w")
    case Nil
    then show ?thesis by (simp add: enumerate_ret)
  next
    case (Cons r rest)
    then show ?thesis by (cases r) (auto simp: enumerate_ret)
  qed
  have err: "fst (enumerate_uidls now w) = - 2 \<longleftrightarrow> (\<exists>e rest. script w = Rep_err e # rest)"
  proof (cases "script w")
    case Nil
    then show ?thesis by (simp add: enumerate_ret)
  next
    case (Cons r rest)
    then show ?thesis by (cases r) (auto simp: enumerate_ret)
  qed
  have keep: "cmd_uidl w \<noteq> 2 \<longrightarrow> cmd_uidl w' = cmd_uidl w
            \<and> (\<forall>ts. cmd_uidl (fetch_headers_many cfg ts w) = cmd_uidl w)"
    using a(1) uidl_capability_kept [of w cfg] by simp
  have move: "cmd_uidl w = 2 \<longrightarrow>
          (fst (enumerate_uidls now w) = 0 \<longrightarrow> cmd_uidl w' = 1)
        \<and> (fst (enumerate_uidls now w) = - 2 \<longrightarrow>
              cmd_uidl w' = 0 \<and> ret = - 2
              \<and> err_msg w' = ''Command UIDL is not supported by server.'')
        \<and> (fst (enumerate_uidls now w) \<noteq> 0 \<and> fst (enumerate_uidls now w) \<noteq> - 2 \<longrightarrow>
              cmd_uidl w' = 2)"
    using a by simp
  from keep move ok err show ?thesis by blast
qed

theorem uidl_capability_transitions_witness:
  "cmd_uidl (example_world\<lparr>script := [Rep_err ''-ERR unknown command'']\<rparr>) = 2
   \<and> fst (enumerate_uidls 100 (example_world\<lparr>script := [Rep_err ''-ERR unknown command'']\<rparr>)) = - 2
   \<and> cmd_uidl (snd (pop_fetch_headers example_pop_config 100
         (example_world\<lparr>script := [Rep_err ''-ERR unknown command'']\<rparr>))) = 0
   \<and> fst (pop_fetch_headers example_pop_config 100
         (example_world\<lparr>script := [Rep_err ''-ERR unknown command'']\<rparr>)) = - 2
   \<and> cmd_uidl (fetch_headers_many example_pop_config [200, 300]
         (snd (pop_fetch_headers example_pop_config 100
            (example_world\<lparr>script := [Rep_err ''-ERR unknown command'']\<rparr>)))) = 0"
proof -
  let ?w = "example_world\<lparr>script := [Rep_err ''-ERR unknown command'']\<rparr>"
  let ?w' = "snd (pop_fetch_headers example_pop_config 100 ?w)"
  have u: "cmd_uidl ?w = 2" by (simp add: example_world_def)
  have s: "script ?w = [Rep_err ''-ERR unknown command'']" by simp
  have p: "pop_fetch_headers example_pop_config 100 ?w
             = (fst (pop_fetch_headers example_pop_config 100 ?w), ?w')" by simp
  note t = uidl_capability_transitions [OF p]
  have e: "fst (enumerate_uidls 100 ?w) = - 2" using t s by blast
  with t u have z: "cmd_uidl ?w' = 0" "fst (pop_fetch_headers example_pop_config 100 ?w) = - 2"
    by simp_all
  obtain r2 w2 where p2: "pop_fetch_headers example_pop_config 200 ?w' = (r2, w2)"
    by (cases "pop_fetch_headers example_pop_config 200 ?w'")
  have "cmd_uidl (fetch_headers_many example_pop_config [200, 300] ?w') = cmd_uidl ?w'"
    using uidl_capability_transitions [OF p2] z(1) by (simp del: fetch_headers_many.simps)
  with u e z show ?thesis by (simp del: fetch_headers_many.simps)
qed

text \<open>
  Claim C9 expects a failed call to leave \<open>check_time\<close> alone. The first statement
  of \<open>pop_fetch_headers\<close> stores the clock there, before anything can fail. With the
  server answering \<open>-ERR\<close> to UIDL at time 100 the call returns -2, \<open>check_time\<close>
  has moved from 0 to 100, and a check at time 130 with an interval of 60 returns 0
  without doing anything.
\<close>

theorem failed_fetch_moves_check_time:
  "fst (pop_fetch_headers example_pop_config 100
          (example_world\<lparr>script := [Rep_err ''-ERR'']\<rparr>)) = - 2
   \<and> check_time (example_world\<lparr>script := [Rep_err ''-ERR'']\<rparr>) = 0
   \<and> check_time (snd (pop_fetch_headers example_pop_config 100
          (example_world\<lparr>script := [Rep_err ''-ERR'']\<rparr>))) = 100
   \<and> pop_check_mailbox example_pop_config 130
        (snd (pop_fetch_headers example_pop_config 100
           (example_world\<lparr>script := [Rep_err ''-ERR'']\<rparr>)))
      = (0, snd (pop_fetch_headers example_pop_config 100
           (example_world\<lparr>script := [Rep_err ''-ERR'']\<rparr>)))"
proof -
  let ?w = "example_world\<lparr>script := [Rep_err ''-ERR'']\<rparr>"
  let ?w' = "snd (pop_fetch_headers example_pop_config 100 ?w)"
  have u: "cmd_uidl ?w = 2" "check_time ?w = 0" by (simp_all add: example_world_def)
  have e: "fst (enumerate_uidls 100 ?w) = - 2" by (simp add: enumerate_ret)
  have r: "fst (pop_fetch_headers example_pop_config 100 ?w) = - 2"
    using uidl_capability_after(2) [of example_pop_config 100 ?w
        "fst (pop_fetch_headers example_pop_config 100 ?w)" ?w'] u e by simp
  have c: "check_time ?w' = 100" by (rule check_time_after)
  have "130 < check_time ?w' + PopCheckinterval example_pop_config"
    using c by (simp add: example_pop_config_def)
  from check_suppressed [OF this] r u c show ?thesis by simp
qed

text \<open>
  Claim C9, as the code has it. \<open>check_time\<close> is the time at which the last call of
  \<open>pop_fetch_headers\<close> started, whether the call succeeded or failed; so after any
  call at time \<open>now\<close>, a check made before \<open>now\<close> plus the check interval returns 0
  and changes nothing.
\<close>

theorem check_time_is_last_attempt:
  "check_time (snd (pop_fetch_headers cfg now w)) = now
   \<and> (t < now + PopCheckinterval cfg \<longrightarrow>
        pop_check_mailbox cfg t (snd (pop_fetch_headers cfg now w))
          = (0, snd (pop_fetch_headers cfg now w)))"
  using check_time_after [of cfg now w]
    check_suppressed [of t "snd (pop_fetch_headers cfg now w)" cfg]
  by simp

theorem check_time_is_last_attempt_witness:
  "(130::int) < 100 + PopCheckinterval example_pop_config
   \<and> check_time (snd (pop_fetch_headers example_pop_config 100 example_world)) = 100
   \<and> pop_check_mailbox example_pop_config 130
        (snd (pop_fetch_headers example_pop_config 100 example_world))
      = (0, snd (pop_fetch_headers example_pop_config 100 example_world))"
proof -
  have i: "(130::int) < 100 + PopCheckinterval example_pop_config"
    by (simp add: example_pop_config_def)
  with check_time_is_last_attempt [of example_pop_config 100 example_world 130]
  show ?thesis by simp
qed

section \<open>The mailbox view after the headers have been fetched\<close>

lemma lost_reports_append [simp]:
  "lost_reports (xs @ ys) = lost_reports xs @ lost_reports ys"
  by (induction xs rule: lost_reports.induct) simp_all

lemma same_view_refl [simp]: "same_view w w"
  by (simp add: same_view_def)

lemma same_view_trans: "same_view a b \<Longrightarrow> same_view b c \<Longrightarrow> same_view a c"
  by (auto simp: same_view_def)

lemma pop_query_view: "same_view w (snd (snd (pop_query cmd w)))"
  by (auto simp: pop_query_def Let_def same_view_def split: list.splits reply.splits)

lemma feed_message_view: "same_view w (snd (feed_lines fetch_message ls r w))"
proof (induction ls arbitrary: r w)
  case Nil
  show ?case by simp
next
  case (Cons l ls)
  have s: "same_view w (snd (fetch_message l w))"
    by (simp add: fetch_message_def same_view_def)
  show ?case
  proof (cases "r = 0")
    case False
    then show ?thesis using Cons.IH [of w r] by simp
  next
    case True
    obtain q w1 where c: "fetch_message l w = (q, w1)" by (cases "fetch_message l w")
    with s have "same_view w w1" by simp
    with True c Cons.IH [of w1 "if q \<noteq> 0 then - 3 else 0"] show ?thesis
      by (auto intro: same_view_trans)
  qed
qed

lemma pop_fetch_data_message_view:
  "same_view w (snd (pop_fetch_data cmd fetch_message w))"
proof (cases "script w")
  case Nil
  then show ?thesis by (simp add: pop_fetch_data_def same_view_def)
next
  case (Cons r rest)
  have f: "\<And>ls. same_view w (snd (feed_lines fetch_message ls 0
                                      (w\<lparr>sent := sent w @ [cmd], script := rest\<rparr>)))"
    using feed_message_view [of "w\<lparr>sent := sent w @ [cmd], script := rest\<rparr>"]
    by (simp add: same_view_def)
  show ?thesis
    using Cons f by (cases r) (simp_all add: pop_fetch_data_def same_view_def)
qed

lemma pop_read_header_view:
  assumes r: "pop_read_header cfg h w = (rc, h1, w1)"
    and frame: "\<And>s ls h. refno (mutt_read_rfc822_header cfg s ls h) = refno h"
  shows "same_view w w1 \<and> (0 \<le> rc \<longrightarrow> refno h1 = refno h)"
proof (cases "tmp_open_ok w")
  case False
  with r show ?thesis by (auto simp: pop_read_header_def same_view_def)
next
  case True
  obtain rc0 buf wq where q: "pop_query (LIST (refno h)) (w\<lparr>tmpfile := []\<rparr>) = (rc0, buf, wq)"
    by (cases "pop_query (LIST (refno h)) (w\<lparr>tmpfile := []\<rparr>)")
  have s1: "same_view w wq"
    using pop_query_view [of "w\<lparr>tmpfile := []\<rparr>" "LIST (refno h)"] q
    by (simp add: same_view_def)
  obtain rc1 wa where f: "pop_fetch_data (TOP (refno h)) fetch_message wq = (rc1, wa)"
    by (cases "pop_fetch_data (TOP (refno h)) fetch_message wq")
  have "same_view wq wa" using pop_fetch_data_message_view [of wq "TOP (refno h)"] f by simp
  then have s2: "same_view w (note_top_capability rc1 wa)"
    using s1 by (auto simp: note_top_capability_def same_view_def)
  show ?thesis
    using True q f s1 s2 r frame
    by (auto simp: pop_read_header_def same_view_def split: if_splits)
qed


lemma set_flags_keeps: "refno (set_flags cfg hc bc h) = refno h"
  "data (set_flags cfg hc bc h) = data h" "deleted (set_flags cfg hc bc h) = deleted h"
  by (simp_all add: set_flags_def Let_def)

lemma new_header_step_ok:
  assumes st: "new_header_step cfg i hc w = (rc, hc', w')"
    and ok: "0 \<le> rc" and i: "i < length (hdrs w)"
    and frame: "\<And>s ls h. refno (mutt_read_rfc822_header cfg s ls h) = refno h"
  shows "step_ok i w w'"
proof (cases "if USE_HCACHE cfg then map_of (hcache w) (data (hdrs w ! i)) else None")
  case (Some restored)
  with st i show ?thesis
    by (auto simp: new_header_step_def Let_def step_ok_def set_flags_keeps nth_list_update)
next
  case None
  obtain r h1 w1 where p: "pop_read_header cfg (hdrs w ! i) w = (r, h1, w1)"
    by (cases "pop_read_header cfg (hdrs w ! i) w")
  note v = pop_read_header_view [OF p frame]
  from st None p ok have r: "0 \<le> r" "rc = r"
    by (auto simp: new_header_step_def Let_def split: if_splits)
  with v have h1: "refno h1 = refno (hdrs w ! i)" by simp
  from v have vw: "hdrs w1 = hdrs w" "msgcount w1 = msgcount w"
    "lost_reports (ui w1) = lost_reports (ui w)"
    by (simp_all add: same_view_def)
  from st None p r have
    w': "w' = (if USE_HCACHE cfg then w1\<lparr>hcache := (data h1, h1) # hcache w1\<rparr> else w1)
            \<lparr>hdrs := (hdrs w1)[i := set_flags cfg hc
                 (data h1 \<in> set (bcache (if USE_HCACHE cfg
                    then w1\<lparr>hcache := (data h1, h1) # hcache w1\<rparr> else w1))) h1],
              msgcount := msgcount w1 + 1\<rparr>"
    by (auto simp: new_header_step_def Let_def)
  show ?thesis
    unfolding step_ok_def w' using vw h1 i
    by (auto simp: set_flags_keeps nth_list_update)
qed

lemma new_headers_loop_ok:
  "new_headers_loop cfg i nc hc w = (rc, w') \<Longrightarrow> 0 \<le> rc \<Longrightarrow> nc \<le> length (hdrs w)
   \<Longrightarrow> \<forall>s ls h. refno (mutt_read_rfc822_header cfg s ls h) = refno h
   \<Longrightarrow> loop_ok2 i nc w w'"
proof (induction cfg i nc hc w rule: new_headers_loop.induct)
  case (1 cfg i nc hc w)
  show ?case
  proof (cases "i < nc")
    case False
    with "1.prems" show ?thesis by (simp add: new_headers_loop.simps loop_ok2_def)
  next
    case True
    obtain r hc1 w1 where st: "new_header_step cfg i hc w = (r, hc1, w1)"
      by (cases "new_header_step cfg i hc w")
    show ?thesis
    proof (cases "r < 0")
      case neg: True
      with True st "1.prems" show ?thesis by (simp add: new_headers_loop.simps)
    next
      case False
      then have r0: "0 \<le> r" by simp
      have i: "i < length (hdrs w)" using True "1.prems" by simp
      note s = new_header_step_ok [OF st r0 i "1.prems"(4) [rule_format]]
      have l: "new_headers_loop cfg (Suc i) nc hc1 w1 = (rc, w')"
        using "1.prems"(1) True st False by (simp add: new_headers_loop.simps)
      have len: "nc \<le> length (hdrs w1)" using s "1.prems" by (simp add: step_ok_def)
      note ih = "1.IH" [OF True st [symmetric] refl False l "1.prems"(2) len "1.prems"(4)]
      show ?thesis
        using s ih True unfolding step_ok_def loop_ok2_def by auto
    qed
  qed
qed


lemma forget_refnos_inv:
  assumes "msgcount w \<le> length (hdrs w)"
  shows "listing_inv (msgcount w) w (forget_refnos (w\<lparr>check_time := t, clear_cache := c\<rparr>))"
  using assms by (auto simp: listing_inv_def forget_refnos_def nth_append)

lemma fetch_uidl_inv:
  assumes inv: "listing_inv n0 w0 w" and pos: "0 < line_number l"
  shows "listing_inv n0 w0 (snd (fetch_uidl l w))"
proof -
  obtain v endp er where p: "strtol l = (v, endp, er)" by (cases "strtol l")
  show ?thesis
  proof (cases er)
    case True
    with p inv show ?thesis by (simp add: fetch_uidl_def)
  next
    case False
    define n where "n = to_int32 v"
    define u where "u = dropWhile (\<lambda>c. c = CHR '' '') endp"
    define i where "i = uidl_pos u (take (msgcount w) (hdrs w))"
    define w' where "w' = snd (fetch_uidl l w)"
    have wf: "msgcount w \<le> length (hdrs w)" using inv by (simp add: listing_inv_def)
    have n: "0 < n" using pos p by (simp add: line_number_def n_def)
    have p': "strtol l = (v, endp, False)" using p False by simp
    note e = fetch_uidl_effect [OF wf p' n_def u_def i_def w'_def]
    show ?thesis
    proof (cases "\<exists>h\<in>set (take (msgcount w) (hdrs w)). data h = u")
      case True
      with e have f: "i < msgcount w" "msgcount w' = msgcount w"
        "hdrs w' = (hdrs w)[i := (hdrs w ! i)\<lparr>refno := n, index := to_int32 (n - 1)\<rparr>]"
        by simp_all
      show ?thesis
        unfolding w'_def [symmetric] listing_inv_def f
        using inv n f(1) wf by (auto simp: listing_inv_def nth_list_update)
    next
      case False
      with e have f: "msgcount w' = msgcount w + 1"
        "hdrs w' = take (msgcount w) (hdrs w)
                     @ [mutt_new_header\<lparr>data := u, refno := n, index := to_int32 (n - 1)\<rparr>]"
        by simp_all
      have len: "length (take (msgcount w) (hdrs w)) = msgcount w" using wf by simp
      show ?thesis
        unfolding w'_def [symmetric] listing_inv_def f
        using inv n wf by (auto simp: listing_inv_def nth_append)
    qed
  qed
qed

lemma feed_uidl_inv:
  "listing_inv n0 w0 w \<Longrightarrow> \<forall>l\<in>set ls. 0 < line_number l \<Longrightarrow>
     listing_inv n0 w0 (snd (feed_lines fetch_uidl ls r w))"
proof (induction ls arbitrary: r w)
  case Nil
  then show ?case by simp
next
  case (Cons l ls)
  show ?case
  proof (cases "r = 0")
    case False
    with Cons show ?thesis by simp
  next
    case True
    obtain q w1 where c: "fetch_uidl l w = (q, w1)" by (cases "fetch_uidl l w")
    have "listing_inv n0 w0 w1"
      using fetch_uidl_inv [OF Cons.prems(1), of l] Cons.prems(2) c by simp
    from Cons.IH [OF this, of "if q \<noteq> 0 then - 3 else 0"] Cons.prems(2) True c
    show ?thesis by simp
  qed
qed

lemma listing_inv_upd:
  "listing_inv n0 w0 (w\<lparr>sent := x, script := y\<rparr>) = listing_inv n0 w0 w"
  by (simp add: listing_inv_def)

lemma enumerate_inv:
  assumes wf: "msgcount w \<le> length (hdrs w)"
    and sc: "script w = Rep_ok s ls # rest"
    and pos: "\<forall>l\<in>set ls. 0 < line_number l"
    and e: "enumerate_uidls now w = (ret0, nc, w4)"
  shows "listing_inv (msgcount w) w (w4\<lparr>msgcount := nc\<rparr>) \<and> msgcount w4 = msgcount w"
proof -
  let ?w2 = "forget_refnos (w\<lparr>check_time := now, clear_cache := False\<rparr>)"
  have s2: "script ?w2 = Rep_ok s ls # rest" using sc by (simp add: forget_refnos_def)
  have i2: "listing_inv (msgcount w) w (?w2\<lparr>sent := sent ?w2 @ [UIDL], script := rest\<rparr>)"
    unfolding listing_inv_upd using forget_refnos_inv [OF wf] .
  have fd: "pop_fetch_data UIDL fetch_uidl ?w2
              = feed_lines fetch_uidl ls 0 (?w2\<lparr>sent := sent ?w2 @ [UIDL], script := rest\<rparr>)"
    using s2 by (simp add: pop_fetch_data_def)
  obtain r3 w3 where f: "pop_fetch_data UIDL fetch_uidl ?w2 = (r3, w3)"
    by (cases "pop_fetch_data UIDL fetch_uidl ?w2")
  have "snd (feed_lines fetch_uidl ls 0 (?w2\<lparr>sent := sent ?w2 @ [UIDL], script := rest\<rparr>)) = w3"
    using fd f by (metis snd_conv)
  with feed_uidl_inv [OF i2 pos, of 0] have i3: "listing_inv (msgcount w) w w3" by simp
  from e f have w4: "w4 = w3\<lparr>msgcount := msgcount w\<rparr>" "nc = msgcount w3"
    by (simp_all add: enumerate_uidls_def)
  have "w4\<lparr>msgcount := nc\<rparr> = w3" unfolding w4 by simp
  with i3 w4 show ?thesis by simp
qed

lemma fetch_uidl_ui: "ui (snd (fetch_uidl l w)) = ui w"
  by (simp add: fetch_uidl_def Let_def split: prod.splits)

lemma feed_uidl_ui: "ui (snd (feed_lines fetch_uidl ls r w)) = ui w"
proof (induction ls arbitrary: r w)
  case Nil
  show ?case by simp
next
  case (Cons l ls)
  show ?case
  proof (cases "r = 0")
    case False
    then show ?thesis using Cons.IH [of r w] by simp
  next
    case True
    obtain q w1 where c: "fetch_uidl l w = (q, w1)" by (cases "fetch_uidl l w")
    then have "ui w1 = ui w" using fetch_uidl_ui [of l w] by simp
    with True c Cons.IH [of "if q \<noteq> 0 then - 3 else 0" w1] show ?thesis by simp
  qed
qed

lemma enumerate_ui:
  assumes "enumerate_uidls now w = (ret0, nc, w4)"
  shows "ui w4 = ui w"
proof -
  let ?w2 = "forget_refnos (w\<lparr>check_time := now, clear_cache := False\<rparr>)"
  have u2: "ui ?w2 = ui w" by (simp add: forget_refnos_def)
  have "ui (snd (pop_fetch_data UIDL fetch_uidl ?w2)) = ui ?w2"
  proof (cases "script ?w2")
    case Nil
    then show ?thesis by (simp add: pop_fetch_data_def)
  next
    case (Cons r rest)
    then show ?thesis by (cases r) (simp_all add: pop_fetch_data_def feed_uidl_ui)
  qed
  with assms u2 show ?thesis
    by (auto simp: enumerate_uidls_def split: prod.splits)
qed

lemma mark_lost_effect:
  assumes "oc \<le> length (hdrs w)"
  shows "msgcount (mark_lost oc w) = msgcount w"
    and "length (hdrs (mark_lost oc w)) = length (hdrs w)"
    and "\<forall>j<length (hdrs w). refno (hdrs (mark_lost oc w) ! j) = refno (hdrs w ! j)
                              \<and> data (hdrs (mark_lost oc w) ! j) = data (hdrs w ! j)"
    and "\<forall>j<oc. deleted (hdrs (mark_lost oc w) ! j)
                   = (deleted (hdrs w ! j) \<or> refno (hdrs w ! j) = - 1)"
    and "lost_reports (ui (mark_lost oc w))
           = lost_reports (ui w)
             @ (if 0 < length (filter (\<lambda>h. refno h = - 1) (take oc (hdrs w)))
                then [length (filter (\<lambda>h. refno h = - 1) (take oc (hdrs w)))] else [])"
  using assms by (auto simp: mark_lost_def Let_def nth_append)


lemma sweep_view: "hdrs (sweep_bcache cfg w) = hdrs w" "msgcount (sweep_bcache cfg w) = msgcount w"
  "ui (sweep_bcache cfg w) = ui w"
  by (simp_all add: sweep_bcache_def)

lemma note_uidl_view: "hdrs (note_uidl_capability r w) = hdrs w"
  "msgcount (note_uidl_capability r w) = msgcount w" "ui (note_uidl_capability r w) = ui w"
  by (simp_all add: note_uidl_capability_def)

lemma fetch_headers_view:
  assumes wf: "msgcount w \<le> length (hdrs w)"
    and sc: "script w = Rep_ok s ls # rest"
    and pos: "\<forall>l\<in>set ls. 0 < line_number l"
    and frame: "\<forall>s ls h. refno (mutt_read_rfc822_header cfg s ls h) = refno h"
    and r: "pop_fetch_headers cfg now w = (ret, w')"
    and ok: "0 \<le> ret"
  shows "msgcount w \<le> msgcount w'" and "msgcount w' \<le> length (hdrs w')"
    and "ret = int (msgcount w') - int (msgcount w)"
    and "\<forall>j<msgcount w'. 0 < refno (hdrs w' ! j) \<or> deleted (hdrs w' ! j)"
    and "\<forall>j<msgcount w. data (hdrs w' ! j) = data (hdrs w ! j)
            \<and> deleted (hdrs w' ! j) = (deleted (hdrs w ! j) \<or> refno (hdrs w' ! j) = - 1)"
    and "lost_reports (ui w')
           = lost_reports (ui w)
             @ (if 0 < length (filter (\<lambda>h. refno h = - 1) (take (msgcount w) (hdrs w')))
                then [length (filter (\<lambda>h. refno h = - 1) (take (msgcount w) (hdrs w')))]
                else [])"
proof -
  let ?oc = "msgcount w"
  obtain ret0 nc w4 where e: "enumerate_uidls now w = (ret0, nc, w4)"
    by (cases "enumerate_uidls now w")
  have ret0: "ret0 = 0"
  proof (rule ccontr)
    assume n: "ret0 \<noteq> 0"
    with fetch_headers_session [OF e r] have "ret = ret0" by simp
    moreover have "ret0 \<le> 0" using enumerate_ret_range [of now w] e by simp
    ultimately show False using n ok by simp
  qed
  from enumerate_inv [OF wf sc pos e]
  have li: "listing_inv ?oc w (w4\<lparr>msgcount := nc\<rparr>)" and m4: "msgcount w4 = ?oc" by simp_all
  from li have b: "?oc \<le> nc" "nc \<le> length (hdrs w4)"
    and old4: "\<forall>i<?oc. data (hdrs w4 ! i) = data (hdrs w ! i)
                  \<and> deleted (hdrs w4 ! i) = deleted (hdrs w ! i)
                  \<and> (refno (hdrs w4 ! i) = - 1 \<or> 0 < refno (hdrs w4 ! i))"
    and new4: "\<forall>i. ?oc \<le> i \<and> i < nc \<longrightarrow> 0 < refno (hdrs w4 ! i)"
    by (simp_all add: listing_inv_def)
  let ?w5 = "note_uidl_capability ret0 w4"
  let ?w6 = "mark_lost ?oc ?w5"
  have oc5: "?oc \<le> length (hdrs ?w5)" using b by (simp add: note_uidl_view)
  note ml = mark_lost_effect [OF oc5]
  obtain r7 w7 where l0: "new_headers_loop cfg ?oc nc False ?w6 = (r7, w7)"
    by (cases "new_headers_loop cfg ?oc nc False ?w6")
  with ret0 have l: "(if ret0 = 0 then new_headers_loop cfg ?oc nc False ?w6 else (ret0, ?w5))
                       = (r7, w7)" by simp
  note u = pop_fetch_headers_unfold [OF e l]
  have r7: "\<not> r7 < 0" using u r ok by auto
  then have "0 \<le> r7" by simp
  have len6: "nc \<le> length (hdrs ?w6)" using ml(2) b by (simp add: note_uidl_view)
  from new_headers_loop_ok [OF l0 \<open>0 \<le> r7\<close> len6 frame]
  have lo: "msgcount w7 = msgcount ?w6 + (nc - ?oc)" "length (hdrs w7) = length (hdrs ?w6)"
    "\<forall>j<length (hdrs ?w6). refno (hdrs w7 ! j) = refno (hdrs ?w6 ! j)"
    "\<forall>j<?oc. hdrs w7 ! j = hdrs ?w6 ! j" "lost_reports (ui w7) = lost_reports (ui ?w6)"
    by (simp_all add: loop_ok2_def)
  from u r r7 have w': "hdrs w' = hdrs w7" "msgcount w' = msgcount w7"
    "lost_reports (ui w') = lost_reports (ui w7)"
    "ret = int nc - int ?oc"
    by (auto simp: sweep_view)
  have m7: "msgcount w7 = nc" using lo(1) ml(1) m4 b by (simp add: note_uidl_view)
  have len7: "length (hdrs w7) = length (hdrs w4)" using lo(2) ml(2) by (simp add: note_uidl_view)
  have refno7: "\<forall>j<length (hdrs w4). refno (hdrs w7 ! j) = refno (hdrs w4 ! j)"
    using lo(3) ml(2) ml(3) by (simp add: note_uidl_view)
  show "?oc \<le> msgcount w'" using w' m7 b by simp
  show "msgcount w' \<le> length (hdrs w')" using w' m7 len7 b by simp
  show "ret = int (msgcount w') - int ?oc" using w' m7 by simp
  have old7: "\<forall>j<?oc. data (hdrs w7 ! j) = data (hdrs w ! j)
            \<and> deleted (hdrs w7 ! j) = (deleted (hdrs w ! j) \<or> refno (hdrs w7 ! j) = - 1)"
  proof (intro allI impI)
    fix j assume j: "j < ?oc"
    then have jl: "j < length (hdrs w4)" using b by simp
    have "hdrs w7 ! j = hdrs ?w6 ! j" using lo(4) j by simp
    moreover have "data (hdrs ?w6 ! j) = data (hdrs w4 ! j)"
      "refno (hdrs ?w6 ! j) = refno (hdrs w4 ! j)"
      using ml(3) jl by (simp_all add: note_uidl_view)
    moreover have "deleted (hdrs ?w6 ! j) = (deleted (hdrs w4 ! j) \<or> refno (hdrs w4 ! j) = - 1)"
      using ml(4) j by (simp add: note_uidl_view)
    ultimately show "data (hdrs w7 ! j) = data (hdrs w ! j)
            \<and> deleted (hdrs w7 ! j) = (deleted (hdrs w ! j) \<or> refno (hdrs w7 ! j) = - 1)"
      using old4 j by simp
  qed
  then show "\<forall>j<?oc. data (hdrs w' ! j) = data (hdrs w ! j)
            \<and> deleted (hdrs w' ! j) = (deleted (hdrs w ! j) \<or> refno (hdrs w' ! j) = - 1)"
    using w' by simp
  show "\<forall>j<msgcount w'. 0 < refno (hdrs w' ! j) \<or> deleted (hdrs w' ! j)"
  proof (intro allI impI)
    fix j assume "j < msgcount w'"
    then have j: "j < nc" using w' m7 by simp
    then have jl: "j < length (hdrs w4)" using b by simp
    show "0 < refno (hdrs w' ! j) \<or> deleted (hdrs w' ! j)"
    proof (cases "j < ?oc")
      case True
      with old4 have "refno (hdrs w4 ! j) = - 1 \<or> 0 < refno (hdrs w4 ! j)" by simp
      with refno7 jl have "refno (hdrs w7 ! j) = - 1 \<or> 0 < refno (hdrs w7 ! j)" by simp
      with old7 True show ?thesis using w' by auto
    next
      case False
      with new4 j have "0 < refno (hdrs w4 ! j)" by simp
      with refno7 jl show ?thesis using w' by simp
    qed
  qed
  have "map refno (take ?oc (hdrs w')) = map refno (take ?oc (hdrs ?w5))"
  proof (rule nth_equalityI)
    show "length (map refno (take ?oc (hdrs w'))) = length (map refno (take ?oc (hdrs ?w5)))"
      using w' len7 by (simp add: note_uidl_view)
  next
    fix j assume "j < length (map refno (take ?oc (hdrs w')))"
    then have j: "j < ?oc" "j < length (hdrs w4)" using w' len7 b by simp_all
    then show "map refno (take ?oc (hdrs w')) ! j = map refno (take ?oc (hdrs ?w5)) ! j"
      using refno7 w' len7 b by (simp add: note_uidl_view)
  qed
  then have "length (filter (\<lambda>x. x = - 1) (map refno (take ?oc (hdrs w'))))
             = length (filter (\<lambda>x. x = - 1) (map refno (take ?oc (hdrs ?w5))))" by simp
  then have cnt: "length (filter (\<lambda>h. refno h = - 1) (take ?oc (hdrs w')))
             = length (filter (\<lambda>h. refno h = - 1) (take ?oc (hdrs ?w5)))"
    by (simp add: filter_map comp_def)
  have ui4: "lost_reports (ui ?w5) = lost_reports (ui w)"
    using enumerate_ui [OF e] by (simp add: note_uidl_view)
  show "lost_reports (ui w')
           = lost_reports (ui w)
             @ (if 0 < length (filter (\<lambda>h. refno h = - 1) (take ?oc (hdrs w')))
                then [length (filter (\<lambda>h. refno h = - 1) (take ?oc (hdrs w')))] else [])"
    unfolding cnt using ml(5) lo(5) w'(3) ui4 by simp
qed

lemmas pop_run_defs = pop_fetch_headers_def enumerate_uidls_def forget_refnos_def pop_fetch_data_def
  fetch_uidl_def strtol_def isspace_def isdigit_def LONG_MAX_def LONG_MIN_def to_int32_def
  note_uidl_capability_def mark_lost_def new_headers_loop.simps new_header_step_def set_flags_def
  sweep_bcache_def example_world_def example_pop_config_def example_header_def mutt_new_header_def
  Let_def

lemma number_in_int_range:
  assumes "0 < fst (strtol l)" "fst (strtol l) < 2 ^ 31"
  shows "line_number l = fst (strtol l)"
proof -
  have "(fst (strtol l) + 2 ^ 31) mod 2 ^ 32 = fst (strtol l) + 2 ^ 31"
    using assms by (intro mod_pos_pos_trivial) simp_all
  then show ?thesis by (simp add: line_number_def to_int32_def)
qed

text \<open>
  Claim C5 promises a positive \<open>refno\<close> for every record that is not marked deleted,
  takes the records marked deleted to be those still at -1, and has their count
  reported. The code takes the number from the server's line as it is, leaves the mark
  of a record that was marked before, and reports a count only when it is positive. In
  the run below the server lists \<open>1 AAA\<close> and \<open>0 BBB\<close>; fetch-headers succeeds with
  one new record, whose \<open>refno\<close> is 0 and which is not marked deleted; the record
  \<open>AAA\<close>, marked before the call, is marked after it although its \<open>refno\<close> is 1;
  and the user is shown no count.
\<close>

theorem zero_refno_in_view:
  "fst (pop_fetch_headers example_pop_config 100 example_world_zero) = 1
   \<and> msgcount (snd (pop_fetch_headers example_pop_config 100 example_world_zero)) = 2
   \<and> refno (hdrs (snd (pop_fetch_headers example_pop_config 100 example_world_zero)) ! 1) = 0
   \<and> \<not> deleted (hdrs (snd (pop_fetch_headers example_pop_config 100 example_world_zero)) ! 1)
   \<and> refno (hdrs (snd (pop_fetch_headers example_pop_config 100 example_world_zero)) ! 0) = 1
   \<and> deleted (hdrs (snd (pop_fetch_headers example_pop_config 100 example_world_zero)) ! 0)
   \<and> ui (snd (pop_fetch_headers example_pop_config 100 example_world_zero)) = [Clear_error]"
  by (simp add: example_world_zero_def pop_run_defs)

text \<open>
  Claim C5, as the code has it. Let fetch-headers succeed on a listing whose every line
  carries a number from 1 to 2147483647, the positive values of \<open>int\<close>, with a header
  parser that leaves \<open>refno\<close> alone. Then every record of the view has a positive
  \<open>refno\<close> or is marked deleted. A record of the previous view keeps its UIDL; the
  call marks it deleted exactly when its \<open>refno\<close> is still -1, and a record that was
  marked before stays marked. The count of the records still at -1 is shown to the
  user once when it is positive and not at all when it is 0. The value returned is the
  number of new records.
\<close>

theorem fetched_view_live_or_deleted:
  assumes "msgcount w \<le> length (hdrs w)"
    and "script w = Rep_ok s ls # rest"
    and "\<forall>l\<in>set ls. 0 < fst (strtol l) \<and> fst (strtol l) < 2 ^ 31"
    and "\<forall>s ls h. refno (mutt_read_rfc822_header cfg s ls h) = refno h"
    and "pop_fetch_headers cfg now w = (ret, w')"
    and "0 \<le> ret"
  shows "(\<forall>h\<in>set (take (msgcount w') (hdrs w')). 0 < refno h \<or> deleted h)
    \<and> (\<forall>j<msgcount w. data (hdrs w' ! j) = data (hdrs w ! j)
            \<and> deleted (hdrs w' ! j) = (deleted (hdrs w ! j) \<or> refno (hdrs w' ! j) = - 1))
    \<and> lost_reports (ui w')
        = lost_reports (ui w)
          @ (if 0 < length (filter (\<lambda>h. refno h = - 1) (take (msgcount w) (hdrs w')))
             then [length (filter (\<lambda>h. refno h = - 1) (take (msgcount w) (hdrs w')))]
             else [])
    \<and> ret = int (msgcount w') - int (msgcount w)"
proof -
  have pos: "\<forall>l\<in>set ls. 0 < line_number l"
    using assms(3) by (simp add: number_in_int_range)
  note v = fetch_headers_view [OF assms(1) assms(2) pos assms(4) assms(5) assms(6)]
  have "\<forall>h\<in>set (take (msgcount w') (hdrs w')). 0 < refno h \<or> deleted h"
  proof
    fix h assume "h \<in> set (take (msgcount w') (hdrs w'))"
    then obtain j where "j < length (take (msgcount w') (hdrs w'))"
      "h = take (msgcount w') (hdrs w') ! j"
      by (auto simp: in_set_conv_nth)
    then have "j < msgcount w'" "h = hdrs w' ! j" by simp_all
    with v(4) show "0 < refno h \<or> deleted h" by simp
  qed
  with v(3) v(5) v(6) show ?thesis by simp
qed

theorem fetched_view_live_or_deleted_witness:
  "msgcount example_world_lost \<le> length (hdrs example_world_lost)
   \<and> script example_world_lost = Rep_ok ''+OK'' [''1 AAA''] # []
   \<and> 0 < fst (strtol ''1 AAA'') \<and> fst (strtol ''1 AAA'') < 2 ^ 31
   \<and> 0 \<le> fst (pop_fetch_headers example_pop_config 100 example_world_lost)
   \<and> data (hdrs (snd (pop_fetch_headers example_pop_config 100 example_world_lost)) ! 1)
       = data (hdrs example_world_lost ! 1)
   \<and> deleted (hdrs (snd (pop_fetch_headers example_pop_config 100 example_world_lost)) ! 1)
       = (deleted (hdrs example_world_lost ! 1)
          \<or> refno (hdrs (snd (pop_fetch_headers example_pop_config 100 example_world_lost)) ! 1)
              = - 1)
   \<and> lost_reports (ui (snd (pop_fetch_headers example_pop_config 100 example_world_lost))) = [1]
   \<and> fst (pop_fetch_headers example_pop_config 100 example_world_lost)
       = int (msgcount (snd (pop_fetch_headers example_pop_config 100 example_world_lost)))
         - int (msgcount example_world_lost)"
proof -
  have wf: "msgcount example_world_lost \<le> length (hdrs example_world_lost)"
    and m: "1 < msgcount example_world_lost"
    by (simp_all add: example_world_lost_def example_world_def)
  have sc: "script example_world_lost = Rep_ok ''+OK'' [''1 AAA''] # []"
    by (simp add: example_world_lost_def)
  have p1: "0 < fst (strtol ''1 AAA'') \<and> fst (strtol ''1 AAA'') < 2 ^ 31"
    by (simp add: strtol_def isspace_def isdigit_def LONG_MAX_def LONG_MIN_def)
  then have pos: "\<forall>l\<in>set [''1 AAA'']. 0 < fst (strtol l) \<and> fst (strtol l) < 2 ^ 31" by simp
  have frame: "\<forall>s ls h. refno (mutt_read_rfc822_header example_pop_config s ls h) = refno h"
    by (simp add: example_pop_config_def)
  have r: "pop_fetch_headers example_pop_config 100 example_world_lost
             = (fst (pop_fetch_headers example_pop_config 100 example_world_lost),
                snd (pop_fetch_headers example_pop_config 100 example_world_lost))" by simp
  have ok: "0 \<le> fst (pop_fetch_headers example_pop_config 100 example_world_lost)"
    by (simp add: example_world_lost_def pop_run_defs)
  have one: "lost_reports (ui (snd (pop_fetch_headers example_pop_config 100 example_world_lost)))
               = [1]"
    by (simp add: example_world_lost_def pop_run_defs)
  from fetched_view_live_or_deleted [OF wf sc pos frame r ok] wf sc p1 ok m one
  show ?thesis by blast
qed

section \<open>A stale record at fetch time\<close>

text \<open>
  Claim C4. In any round of the loop of \<open>pop_fetch_message\<close>, when
  \<open>pop_reconnect\<close> has succeeded and the record's \<open>refno\<close> is negative (-1 is the
  value a stale record has), the function leaves the loop with -1: the state is the one
  after the reconnection with the message "The message index is incorrect. Try
  reopening the mailbox." added and nothing else changed, so no command (no RETR) has
  been sent after the reconnection, and the remaining reconnection outcomes are not
  looked at, so nothing is retried. For a call that does not find the message in a cache
  this is the result of the call.
\<close>

theorem stale_refno_aborts:
  assumes "pop_reconnect out w = (rc, w1)" and "0 \<le> rc" and "refno (hdrs w1 ! msgno) < 0"
  shows "fetch_message_loop cfg msgno (out # outs) bc w
           = (- 1, bc, w1\<lparr>ui := ui w1 @
                 [Error ''The message index is incorrect. Try reopening the mailbox.'']\<rparr>)
    \<and> sent (snd (snd (fetch_message_loop cfg msgno (out # outs) bc w))) = sent w1
    \<and> (cached_message cfg msgno w0 = Miss w \<longrightarrow>
          pop_fetch_message cfg msgno (out # outs) w0
            = Some (- 1, w1\<lparr>ui := ui w1 @
                 [Error ''The message index is incorrect. Try reopening the mailbox.'']\<rparr>))"
proof -
  have l: "fetch_message_loop cfg msgno (out # outs) bc w
           = (- 1, bc, w1\<lparr>ui := ui w1 @
                 [Error ''The message index is incorrect. Try reopening the mailbox.'']\<rparr>)"
    for bc
    using assms by simp
  show ?thesis using l by (simp add: pop_fetch_message_def)
qed

theorem stale_refno_aborts_witness:
  "pop_reconnect (Reconnected [(''AAA'', 1)]) example_world
     = (0, snd (pop_reconnect (Reconnected [(''AAA'', 1)]) example_world))
   \<and> refno (hdrs (snd (pop_reconnect (Reconnected [(''AAA'', 1)]) example_world)) ! 1) = - 1
   \<and> cached_message example_pop_config 1 example_world = Miss example_world
   \<and> (\<exists>w'. pop_fetch_message example_pop_config 1 [Reconnected [(''AAA'', 1)], Still_connected]
               example_world = Some (- 1, w')
           \<and> sent w' = sent example_world
           \<and> ui w' = [Error ''The message index is incorrect. Try reopening the mailbox.''])"
proof -
  let ?w1 = "snd (pop_reconnect (Reconnected [(''AAA'', 1)]) example_world)"
  have r: "pop_reconnect (Reconnected [(''AAA'', 1)]) example_world = (0, ?w1)"
    by (simp add: pop_reconnect_def)
  have n: "refno (hdrs ?w1 ! 1) = - 1"
    by (simp add: pop_reconnect_def pop_clear_cache_def example_world_def example_header_def
          mutt_new_header_def)
  have m: "cached_message example_pop_config 1 example_world = Miss example_world"
    by (simp add: cached_message_def example_world_def example_pop_config_def example_header_def
          mutt_new_header_def)
  have u: "ui ?w1 = []"
    by (simp add: pop_reconnect_def pop_clear_cache_def example_world_def)
  from stale_refno_aborts [OF r _ _, of 1 example_pop_config "[Still_connected]" True example_world]
    n m
  have "pop_fetch_message example_pop_config 1 [Reconnected [(''AAA'', 1)], Still_connected]
               example_world
          = Some (- 1, ?w1\<lparr>ui := ui ?w1 @
                 [Error ''The message index is incorrect. Try reopening the mailbox.'']\<rparr>)"
    by simp
  moreover have "sent ?w1 = sent example_world"
    by (simp add: pop_reconnect_def pop_clear_cache_def)
  ultimately show ?thesis using r n m u by simp
qed

end
